theory Spec2Isabelle
  imports Main "HOL-Library.Word" "HOL-Library.List_Lexorder"
begin

section \<open>JavaScript values\<close>

text \<open>
  A JavaScript string is a sequence of UTF-16 code units. Literals of the source that are
  plain ASCII are written through \<open>js\<close>.
\<close>

type_synonym jsstring = "16 word list"

definition js :: "string \<Rightarrow> jsstring" where
  "js s = map (\<lambda>c. of_char c) s"

text \<open>
  \<open>String.prototype.trimStart\<close> removes the leading code units that are WhiteSpace or
  LineTerminator in ECMAScript: TAB, LF, VT, FF, CR, SP, NBSP, U+1680, U+2000..U+200A,
  U+2028, U+2029, U+202F, U+205F, U+3000 and U+FEFF.
\<close>

definition isWhiteSpace :: "16 word \<Rightarrow> bool" where
  "isWhiteSpace c \<longleftrightarrow>
     c \<in> set [0x09, 0x0A, 0x0B, 0x0C, 0x0D, 0x20, 0xA0, 0x1680,
               0x2028, 0x2029, 0x202F, 0x205F, 0x3000, 0xFEFF]
     \<or> (0x2000 \<le> c \<and> c \<le> 0x200A)"

definition trimStart :: "jsstring \<Rightarrow> jsstring" where
  "trimStart s = dropWhile isWhiteSpace s"

text \<open>
  Truthiness of a value of type \<open>string | null\<close>: \<open>null\<close> and the empty string are
  falsy, every other string is truthy.
\<close>

fun truthy :: "jsstring option \<Rightarrow> bool" where
  "truthy None = False"
| "truthy (Some s) = (s \<noteq> [])"

section \<open>chatHistory.ts\<close>

datatype ChatRole = User | Assistant | System | Tool

text \<open>The field \<open>type\<close> of a ToolCall is the constant \<open>"function"\<close> and is not stored.\<close>

record ToolCall =
  tc_id :: jsstring
  tc_name :: jsstring
  tc_arguments :: jsstring

text \<open>
  \<open>content\<close> is \<open>string | null\<close>; the optional fields \<open>tool_calls\<close> and
  \<open>tool_call_id\<close> are \<open>None\<close> when absent.
\<close>

record ChatMessage =
  role :: ChatRole
  content :: "jsstring option"
  tool_calls :: "ToolCall list option"
  tool_call_id :: "jsstring option"

subsection \<open>compressChatHistory\<close>

text \<open>
  The input array holds references to message objects, and one object may occur in it more
  than once; the heap gives the object behind each reference. One iteration of the
  \<open>for\<close> loop over \<open>chatHistory\<close> is \<open>compress_step\<close>. The array
  \<open>compressed\<close> is the accumulator: its elements are the copies that the loop makes,
  which nothing else refers to, so they are values. The merge branch rewrites the content
  of its last element. The other branch, when the content of the message is a string,
  writes the trimmed content into the message object itself and then pushes a copy of it.
  \<open>compressChatHistory\<close> returns the compressed array together with the heap that the
  loop leaves.
\<close>

type_synonym ref = nat

type_synonym heap = "ref \<Rightarrow> ChatMessage"

definition compress_step ::
  "jsstring \<Rightarrow> ChatMessage list \<times> heap \<Rightarrow> ref \<Rightarrow> ChatMessage list \<times> heap" where
  "compress_step separator state r =
     (let compressed = fst state; h = snd state; message = h r in
      if compressed \<noteq> [] \<and>
         role (last compressed) = role message \<and>
         truthy (content message) \<and>
         truthy (content (last compressed))
      then (case (content (last compressed), content message) of
              (Some c, Some d) \<Rightarrow>
                 (butlast compressed @ [(last compressed)\<lparr>content := Some (c @ separator @ d)\<rparr>], h)
            | _ \<Rightarrow> (compressed, h))
      else (case content message of
              Some c \<Rightarrow>
                (compressed @ [message\<lparr>content := Some (trimStart c)\<rparr>],
                 h(r := message\<lparr>content := Some (trimStart c)\<rparr>))
            | None \<Rightarrow> (compressed @ [message], h)))"

definition compressChatHistory ::
  "heap \<Rightarrow> ref list \<Rightarrow> jsstring \<Rightarrow> ChatMessage list \<times> heap" where
  "compressChatHistory h chatHistory separator =
     foldl (compress_step separator) ([], h) chatHistory"

text \<open>The default value of the parameter \<open>separator\<close> is a single line feed.\<close>

definition default_separator :: jsstring where
  "default_separator = [0x0A]"

text \<open>\<open>Array.prototype.join\<close> on an array of strings.\<close>

fun join :: "jsstring list \<Rightarrow> jsstring \<Rightarrow> jsstring" where
  "join [] sep = []"
| "join [x] sep = x"
| "join (x # y # ys) sep = x @ sep @ join (y # ys) sep"

subsection \<open>localStorage\<close>

text \<open>
  The Web Storage area: string keys with string values. \<open>key(i)\<close> enumerates the
  list; \<open>setItem\<close> overwrites the value of a key that is present and appends a key
  that is not, so a storage built with it holds no key twice. The storage quota is not modelled: \<open>setItem\<close> always
  succeeds.
\<close>

type_synonym storage = "(jsstring \<times> jsstring) list"

definition getItem :: "storage \<Rightarrow> jsstring \<Rightarrow> jsstring option" where
  "getItem st k = map_of st k"

fun setItem :: "jsstring \<Rightarrow> jsstring \<Rightarrow> storage \<Rightarrow> storage" where
  "setItem k v [] = [(k, v)]"
| "setItem k v ((k', v') # st) =
     (if k' = k then (k, v) # st else (k', v') # setItem k v st)"

definition removeItem :: "jsstring \<Rightarrow> storage \<Rightarrow> storage" where
  "removeItem k st = filter (\<lambda>kv. fst kv \<noteq> k) st"

definition storage_keys :: "storage \<Rightarrow> jsstring list" where
  "storage_keys st = map fst st"

subsection \<open>Values, exceptions and JSON\<close>

typedecl jsnumber

datatype jsvalue =
    JUndefined
  | JNull
  | JBool bool
  | JNumber jsnumber
  | JString jsstring
  | JArray "jsvalue list"
  | JObject "(jsstring \<times> jsvalue) list"

text \<open>
  A thrown value is either an instance of \<open>Error\<close>, with its \<open>message\<close>, or
  anything else.
\<close>

datatype thrown = JsError jsstring | NonError jsvalue

datatype 'a completion = Return 'a | Throw thrown

fun bind :: "'a completion \<Rightarrow> ('a \<Rightarrow> 'b completion) \<Rightarrow> 'b completion" where
  "bind (Return x) f = f x"
| "bind (Throw e) f = Throw e"

fun try_catch :: "'a completion \<Rightarrow> (thrown \<Rightarrow> 'a completion) \<Rightarrow> 'a completion" where
  "try_catch (Return x) handler = Return x"
| "try_catch (Throw e) handler = handler e"

text \<open>
  The functions below that call \<open>JSON.parse\<close> or \<open>JSON.stringify\<close> take the
  built-in as a parameter, \<open>parse :: jsstring \<Rightarrow> jsvalue completion\<close> or
  \<open>stringify :: jsvalue \<Rightarrow> jsstring option\<close> (\<open>None\<close> is \<open>undefined\<close>, the
  result for a value that has no JSON text), so that what is proved of them with the
  parameter free holds whatever the built-in does. The built-ins themselves are
  \<open>JSON_parse\<close> and \<open>JSON_stringify\<close> below.
\<close>

definition isArray :: "jsvalue \<Rightarrow> bool" where
  "isArray v = (case v of JArray xs \<Rightarrow> True | _ \<Rightarrow> False)"

definition elements :: "jsvalue \<Rightarrow> jsvalue list" where
  "elements v = (case v of JArray xs \<Rightarrow> xs | _ \<Rightarrow> [])"

text \<open>The string that \<open>setItem\<close> stores for its second argument.\<close>

definition storedString :: "jsstring option \<Rightarrow> jsstring" where
  "storedString v = (case v of None \<Rightarrow> js ''undefined'' | Some s \<Rightarrow> s)"

text \<open>
  What is saved and loaded is an array of message objects as \<open>JSON.stringify\<close> and
  \<open>JSON.parse\<close> see them: objects with their properties in the order in which they
  were created. \<open>isChatMessage\<close> is the type \<open>ChatMessage\<close> read as a guard on
  such an object, in any order of its properties: \<open>role\<close> and \<open>content\<close> are
  there, \<open>tool_calls\<close> and \<open>tool_call_id\<close> may be, each with a value of its
  declared type, and there is no other property. An optional property that is absent and
  one that holds \<open>undefined\<close> read the same everywhere in the code; the guard takes
  the absent form.
\<close>

definition hasString :: "(jsstring \<times> jsvalue) list \<Rightarrow> jsstring \<Rightarrow> bool" where
  "hasString ps k = (case map_of ps k of Some (JString s) \<Rightarrow> True | _ \<Rightarrow> False)"

definition isToolCall :: "jsvalue \<Rightarrow> bool" where
  "isToolCall v =
     (case v of
        JObject ps \<Rightarrow>
          distinct (map fst ps) \<and>
          set (map fst ps) = {js ''id'', js ''type'', js ''function''} \<and>
          hasString ps (js ''id'') \<and>
          map_of ps (js ''type'') = Some (JString (js ''function'')) \<and>
          (case map_of ps (js ''function'') of
             Some (JObject qs) \<Rightarrow>
               distinct (map fst qs) \<and>
               set (map fst qs) = {js ''name'', js ''arguments''} \<and>
               hasString qs (js ''name'') \<and> hasString qs (js ''arguments'')
           | _ \<Rightarrow> False)
      | _ \<Rightarrow> False)"

definition isChatMessage :: "jsvalue \<Rightarrow> bool" where
  "isChatMessage v =
     (case v of
        JObject ps \<Rightarrow>
          distinct (map fst ps) \<and>
          {js ''role'', js ''content''} \<subseteq> set (map fst ps) \<and>
          set (map fst ps) \<subseteq> {js ''role'', js ''content'', js ''tool_calls'', js ''tool_call_id''} \<and>
          (case map_of ps (js ''role'') of
             Some (JString r) \<Rightarrow> r \<in> {js ''user'', js ''assistant'', js ''system'', js ''tool''}
           | _ \<Rightarrow> False) \<and>
          (case map_of ps (js ''content'') of
             Some JNull \<Rightarrow> True | Some (JString c) \<Rightarrow> True | _ \<Rightarrow> False) \<and>
          (case map_of ps (js ''tool_calls'') of
             None \<Rightarrow> True | Some (JArray tcs) \<Rightarrow> list_all isToolCall tcs | _ \<Rightarrow> False) \<and>
          (case map_of ps (js ''tool_call_id'') of
             None \<Rightarrow> True | Some (JString i) \<Rightarrow> True | _ \<Rightarrow> False)
      | _ \<Rightarrow> False)"


subsection \<open>Persistence and snapshots\<close>

definition getStorageKey :: "jsstring \<Rightarrow> jsstring" where
  "getStorageKey voiceName = js ''chatHistory_'' @ voiceName"

definition saveChatHistory ::
  "(jsvalue \<Rightarrow> jsstring option) \<Rightarrow> jsvalue list \<Rightarrow> jsstring \<Rightarrow> storage \<Rightarrow> storage" where
  "saveChatHistory stringify chatHistory voiceName st =
     setItem (getStorageKey voiceName) (storedString (stringify (JArray chatHistory))) st"

text \<open>
  \<open>loadChatHistory\<close> returns the parsed array as it is: the elements are whatever
  values the stored text denotes.
\<close>

definition loadChatHistory ::
  "(jsstring \<Rightarrow> jsvalue completion) \<Rightarrow> jsstring \<Rightarrow> storage \<Rightarrow> jsvalue list completion" where
  "loadChatHistory parse voiceName st =
     (case getItem st (getStorageKey voiceName) of
        None \<Rightarrow> Return []
      | Some savedHistory \<Rightarrow>
          if savedHistory = [] then Return []
          else try_catch
                 (bind (parse savedHistory)
                    (\<lambda>parsed. if isArray parsed then Return (elements parsed) else Return []))
                 (\<lambda>e. Return []))"

text \<open>
  \<open>memoryKeyPrefix voiceName\<close> is the template \<open>chatHistory_${voiceName}_memory_\<close>;
  the timestamp of \<open>saveMemory\<close>, \<open>new Date().toISOString()\<close>, is a parameter.
\<close>

definition memoryKeyPrefix :: "jsstring \<Rightarrow> jsstring" where
  "memoryKeyPrefix voiceName = js ''chatHistory_'' @ voiceName @ js ''_memory_''"

definition memoryKey :: "jsstring \<Rightarrow> jsstring \<Rightarrow> jsstring" where
  "memoryKey voiceName timestamp = memoryKeyPrefix voiceName @ timestamp"

definition saveMemory :: "jsstring \<Rightarrow> jsstring \<Rightarrow> storage \<Rightarrow> storage" where
  "saveMemory voiceName timestamp st =
     (case getItem st (getStorageKey voiceName) of
        None \<Rightarrow> st
      | Some currentHistory \<Rightarrow>
          if currentHistory \<noteq> [] then setItem (memoryKey voiceName timestamp) currentHistory st
          else st)"

definition startsWith :: "jsstring \<Rightarrow> jsstring \<Rightarrow> bool" where
  "startsWith s p = (take (length p) s = p)"

text \<open>
  \<open>s.replace(pat, rep)\<close> for a string pattern: the first occurrence is replaced.
  The replacement text is taken as it is; the only one used below is the empty string.
\<close>

fun replace :: "jsstring \<Rightarrow> jsstring \<Rightarrow> jsstring \<Rightarrow> jsstring" where
  "replace [] pat rep = (if pat = [] then rep else [])"
| "replace (c # cs) pat rep =
     (if startsWith (c # cs) pat then rep @ drop (length pat) (c # cs)
      else c # replace cs pat rep)"

text \<open>
  The default \<open>sort()\<close> orders strings by their code units, which is the lexicographic
  order of the lists.
\<close>

definition getMemoryList :: "jsstring \<Rightarrow> storage \<Rightarrow> jsstring list" where
  "getMemoryList voiceName st =
     rev (sort (map (\<lambda>key. replace key (memoryKeyPrefix voiceName) [])
                  (filter (\<lambda>key. key \<noteq> [] \<and> startsWith key (memoryKeyPrefix voiceName))
                     (storage_keys st))))"

definition loadMemory :: "jsstring \<Rightarrow> jsstring \<Rightarrow> storage \<Rightarrow> storage" where
  "loadMemory voiceName memoryTimestamp st =
     (case getItem st (memoryKey voiceName memoryTimestamp) of
        None \<Rightarrow> st
      | Some memoryHistory \<Rightarrow>
          if memoryHistory \<noteq> [] then setItem (getStorageKey voiceName) memoryHistory st
          else st)"

definition clearChatHistory :: "jsstring \<Rightarrow> storage \<Rightarrow> storage" where
  "clearChatHistory voiceName st = removeItem (getStorageKey voiceName) st"

section \<open>JSON\<close>

text \<open>
  \<open>JSON.parse\<close> and \<open>JSON.stringify\<close> as ECMA-262 specifies them, without
  reviver, replacer and indentation, which the code never passes. A number is kept
  abstract: \<open>toNumber\<close> gives the value of a number literal and \<open>numberText\<close> the
  text that \<open>JSON.stringify\<close> writes for a number, and both are parameters. The
  message thrown for a text that is not JSON differs between engines; what is thrown is a
  \<open>SyntaxError\<close>, an instance of \<open>Error\<close>.
\<close>

subsection \<open>JSON.parse\<close>

text \<open>White space between the tokens of a JSON text: tab, line feed, carriage return, space.\<close>

definition isJsonWhiteSpace :: "16 word \<Rightarrow> bool" where
  "isJsonWhiteSpace c \<longleftrightarrow> c = 0x09 \<or> c = 0x0A \<or> c = 0x0D \<or> c = 0x20"

definition skipWs :: "jsstring \<Rightarrow> jsstring" where
  "skipWs s = dropWhile isJsonWhiteSpace s"

text \<open>
  String literals. After a reverse solidus comes one of the single character escapes or
  \<open>u\<close> and four hexadecimal digits, in either case; a code unit below U+0020 does not
  occur unescaped.
\<close>

definition hexValue :: "16 word \<Rightarrow> nat option" where
  "hexValue c =
     (let u = unat c in
      if 48 \<le> u \<and> u \<le> 57 then Some (u - 48)
      else if 97 \<le> u \<and> u \<le> 102 then Some (u - 87)
      else if 65 \<le> u \<and> u \<le> 70 then Some (u - 55)
      else None)"

definition unescape :: "16 word \<Rightarrow> 16 word option" where
  "unescape e =
     (if e = 0x22 then Some 0x22
      else if e = 0x5C then Some 0x5C
      else if e = 0x2F then Some 0x2F
      else if e = 0x62 then Some 0x08
      else if e = 0x66 then Some 0x0C
      else if e = 0x6E then Some 0x0A
      else if e = 0x72 then Some 0x0D
      else if e = 0x74 then Some 0x09
      else None)"

definition hex4 :: "16 word \<Rightarrow> 16 word \<Rightarrow> 16 word \<Rightarrow> 16 word \<Rightarrow> 16 word option" where
  "hex4 h1 h2 h3 h4 =
     (case (hexValue h1, hexValue h2, hexValue h3, hexValue h4) of
        (Some a, Some b, Some c, Some d) \<Rightarrow> Some (of_nat (((a * 16 + b) * 16 + c) * 16 + d))
      | _ \<Rightarrow> None)"

text \<open>
  The characters of a string literal, read from the text after the opening quotation
  mark up to the closing one: the string and the rest of the text.
\<close>

fun parseStringChars :: "jsstring \<Rightarrow> jsstring \<Rightarrow> (jsstring \<times> jsstring) option" where
  "parseStringChars [] acc = None"
| "parseStringChars (c # cs) acc =
     (if c = 0x22 then Some (acc, cs)
      else if c = 0x5C then
        (case cs of
           [] \<Rightarrow> None
         | e # es \<Rightarrow>
             if e = 0x75 then
               (case es of
                  h1 # h2 # h3 # h4 # rest \<Rightarrow>
                    (case hex4 h1 h2 h3 h4 of
                       Some u \<Rightarrow> parseStringChars rest (acc @ [u])
                     | None \<Rightarrow> None)
                | _ \<Rightarrow> None)
             else
               (case unescape e of
                  Some u \<Rightarrow> parseStringChars es (acc @ [u])
                | None \<Rightarrow> None))
      else if c < 0x20 then None
      else parseStringChars cs (acc @ [c]))"

text \<open>
  Number literals: an optional minus sign, an integer part without leading zero, an
  optional fraction and an optional exponent. \<open>scanNumber\<close> gives the literal at the
  start of the text and the rest of the text.
\<close>

definition isDigit :: "16 word \<Rightarrow> bool" where
  "isDigit c \<longleftrightarrow> 0x30 \<le> c \<and> c \<le> 0x39"

definition scanDigits1 :: "jsstring \<Rightarrow> (jsstring \<times> jsstring) option" where
  "scanDigits1 s =
     (if takeWhile isDigit s = [] then None
      else Some (takeWhile isDigit s, dropWhile isDigit s))"

definition scanInt :: "jsstring \<Rightarrow> (jsstring \<times> jsstring) option" where
  "scanInt s =
     (case s of
        [] \<Rightarrow> None
      | c # cs \<Rightarrow>
          if c = 0x30 then Some ([c], cs)
          else if isDigit c then Some (c # takeWhile isDigit cs, dropWhile isDigit cs)
          else None)"

definition scanFraction :: "jsstring \<Rightarrow> (jsstring \<times> jsstring) option" where
  "scanFraction s =
     (case s of
        c # cs \<Rightarrow>
          if c = 0x2E then map_option (\<lambda>(ds, rest). (c # ds, rest)) (scanDigits1 cs)
          else Some ([], s)
      | [] \<Rightarrow> Some ([], s))"

definition scanExponent :: "jsstring \<Rightarrow> (jsstring \<times> jsstring) option" where
  "scanExponent s =
     (case s of
        c # cs \<Rightarrow>
          if c = 0x65 \<or> c = 0x45 then
            (case cs of
               d # ds \<Rightarrow>
                 if d = 0x2B \<or> d = 0x2D
                 then map_option (\<lambda>(ds', rest). (c # d # ds', rest)) (scanDigits1 ds)
                 else map_option (\<lambda>(ds', rest). (c # ds', rest)) (scanDigits1 cs)
             | [] \<Rightarrow> None)
          else Some ([], s)
      | [] \<Rightarrow> Some ([], s))"

definition scanNumber :: "jsstring \<Rightarrow> (jsstring \<times> jsstring) option" where
  "scanNumber s =
     (let sign = (case s of c # cs \<Rightarrow> if c = 0x2D then [c] else [] | [] \<Rightarrow> []) in
      case scanInt (drop (length sign) s) of
        None \<Rightarrow> None
      | Some (intPart, s1) \<Rightarrow>
          (case scanFraction s1 of
             None \<Rightarrow> None
           | Some (fraction, s2) \<Rightarrow>
               (case scanExponent s2 of
                  None \<Rightarrow> None
                | Some (exponent, s3) \<Rightarrow> Some (sign @ intPart @ fraction @ exponent, s3))))"

text \<open>
  \<open>CreateDataProperty\<close> on the object under construction: a key that is there keeps
  its place and takes the new value, a new key goes to the end.
\<close>

fun defineProperty :: "jsstring \<Rightarrow> jsvalue \<Rightarrow> (jsstring \<times> jsvalue) list \<Rightarrow> (jsstring \<times> jsvalue) list" where
  "defineProperty k v [] = [(k, v)]"
| "defineProperty k v ((k', v') # ps) =
     (if k' = k then (k, v) # ps else (k', v') # defineProperty k v ps)"

text \<open>
  Values, the elements of an array and the members of an object. Each function reads one
  of them at the start of the text and gives it with the rest of the text, or \<open>None\<close>
  when the text does not start with one. The first argument after \<open>toNumber\<close> bounds
  the number of nested calls and decreases with each; \<open>JSON_parse\<close> starts it above
  twice the length of the text, so that the recursion is structural.
\<close>

fun parseValue ::
      "(jsstring \<Rightarrow> jsnumber) \<Rightarrow> nat \<Rightarrow> jsstring \<Rightarrow> (jsvalue \<times> jsstring) option"
  and parseElements ::
      "(jsstring \<Rightarrow> jsnumber) \<Rightarrow> nat \<Rightarrow> jsstring \<Rightarrow> jsvalue list \<Rightarrow>
       (jsvalue list \<times> jsstring) option"
  and parseMembers ::
      "(jsstring \<Rightarrow> jsnumber) \<Rightarrow> nat \<Rightarrow> jsstring \<Rightarrow> (jsstring \<times> jsvalue) list \<Rightarrow>
       ((jsstring \<times> jsvalue) list \<times> jsstring) option" where
  "parseValue toNumber 0 s = None"
| "parseValue toNumber (Suc n) s =
     (case s of
        [] \<Rightarrow> None
      | c # cs \<Rightarrow>
          if c = 0x22 then
            map_option (\<lambda>(str, rest). (JString str, rest)) (parseStringChars cs [])
          else if c = 0x5B then
            (case skipWs cs of
               [] \<Rightarrow> None
             | d # ds \<Rightarrow>
                 if d = 0x5D then Some (JArray [], ds)
                 else map_option (\<lambda>(xs, rest). (JArray xs, rest))
                        (parseElements toNumber n (d # ds) []))
          else if c = 0x7B then
            (case skipWs cs of
               [] \<Rightarrow> None
             | d # ds \<Rightarrow>
                 if d = 0x7D then Some (JObject [], ds)
                 else map_option (\<lambda>(ps, rest). (JObject ps, rest))
                        (parseMembers toNumber n (d # ds) []))
          else if startsWith s (js ''null'') then Some (JNull, drop 4 s)
          else if startsWith s (js ''true'') then Some (JBool True, drop 4 s)
          else if startsWith s (js ''false'') then Some (JBool False, drop 5 s)
          else map_option (\<lambda>(lexeme, rest). (JNumber (toNumber lexeme), rest)) (scanNumber s))"
| "parseElements toNumber 0 s acc = None"
| "parseElements toNumber (Suc n) s acc =
     (case parseValue toNumber n s of
        None \<Rightarrow> None
      | Some (v, rest) \<Rightarrow>
          (case skipWs rest of
             [] \<Rightarrow> None
           | c # cs \<Rightarrow>
               if c = 0x2C then parseElements toNumber n (skipWs cs) (acc @ [v])
               else if c = 0x5D then Some (acc @ [v], cs)
               else None))"
| "parseMembers toNumber 0 s acc = None"
| "parseMembers toNumber (Suc n) s acc =
     (case s of
        [] \<Rightarrow> None
      | c # cs \<Rightarrow>
          if c \<noteq> 0x22 then None
          else
            (case parseStringChars cs [] of
               None \<Rightarrow> None
             | Some (key, rest) \<Rightarrow>
                 (case skipWs rest of
                    [] \<Rightarrow> None
                  | d # ds \<Rightarrow>
                      if d \<noteq> 0x3A then None
                      else
                        (case parseValue toNumber n (skipWs ds) of
                           None \<Rightarrow> None
                         | Some (v, rest') \<Rightarrow>
                             (case skipWs rest' of
                                [] \<Rightarrow> None
                              | e # es \<Rightarrow>
                                  if e = 0x2C then
                                    parseMembers toNumber n (skipWs es) (defineProperty key v acc)
                                  else if e = 0x7D then Some (defineProperty key v acc, es)
                                  else None)))))"

definition JSON_parse :: "(jsstring \<Rightarrow> jsnumber) \<Rightarrow> jsstring \<Rightarrow> jsvalue completion" where
  "JSON_parse toNumber text =
     (case parseValue toNumber (2 * length text + 2) (skipWs text) of
        None \<Rightarrow> Throw (JsError (js ''Unexpected token''))
      | Some (v, rest) \<Rightarrow>
          if skipWs rest = [] then Return v
          else Throw (JsError (js ''Unexpected non-whitespace character after JSON'')))"

subsection \<open>JSON.stringify\<close>

text \<open>
  \<open>QuoteJSONString\<close>: the two-character escapes for backspace, tab, line feed, form
  feed, carriage return, quotation mark and reverse solidus; the escape \<open>\uXXXX\<close>
  with lower case digits for the other code units below U+0020 and for a surrogate that
  is not part of a pair; every other code unit as it is.
\<close>

definition hexDigit :: "nat \<Rightarrow> 16 word" where
  "hexDigit n = (if n < 10 then of_nat (48 + n) else of_nat (87 + n))"

definition unicodeEscape :: "16 word \<Rightarrow> jsstring" where
  "unicodeEscape c =
     [0x5C, 0x75, hexDigit (unat c div 4096), hexDigit (unat c div 256 mod 16),
      hexDigit (unat c div 16 mod 16), hexDigit (unat c mod 16)]"

definition isSurrogate :: "16 word \<Rightarrow> bool" where
  "isSurrogate c \<longleftrightarrow> 0xD800 \<le> c \<and> c \<le> 0xDFFF"

definition isHighSurrogate :: "16 word \<Rightarrow> bool" where
  "isHighSurrogate c \<longleftrightarrow> 0xD800 \<le> c \<and> c \<le> 0xDBFF"

definition isLowSurrogate :: "16 word \<Rightarrow> bool" where
  "isLowSurrogate c \<longleftrightarrow> 0xDC00 \<le> c \<and> c \<le> 0xDFFF"

definition quoteCodeUnit :: "16 word \<Rightarrow> jsstring" where
  "quoteCodeUnit c =
     (if c = 0x08 then [0x5C, 0x62]
      else if c = 0x09 then [0x5C, 0x74]
      else if c = 0x0A then [0x5C, 0x6E]
      else if c = 0x0C then [0x5C, 0x66]
      else if c = 0x0D then [0x5C, 0x72]
      else if c = 0x22 then [0x5C, 0x22]
      else if c = 0x5C then [0x5C, 0x5C]
      else if c < 0x20 \<or> isSurrogate c then unicodeEscape c
      else [c])"

fun quoteChars :: "jsstring \<Rightarrow> jsstring" where
  "quoteChars [] = []"
| "quoteChars [c] = quoteCodeUnit c"
| "quoteChars (c # d # cs) =
     (if isHighSurrogate c \<and> isLowSurrogate d then c # d # quoteChars cs
      else quoteCodeUnit c @ quoteChars (d # cs))"

definition quoteJSONString :: "jsstring \<Rightarrow> jsstring" where
  "quoteJSONString s = 0x22 # quoteChars s @ [0x22]"

text \<open>
  The properties of an object are written in the order of its own property keys: those
  that are array indices first, in ascending order, then the others in the order of their
  creation, which is the order of the list.
\<close>

definition digitsValue :: "jsstring \<Rightarrow> nat" where
  "digitsValue k = foldl (\<lambda>n c. 10 * n + (unat c - 48)) 0 k"

definition isArrayIndex :: "jsstring \<Rightarrow> bool" where
  "isArrayIndex k \<longleftrightarrow>
     k \<noteq> [] \<and> list_all isDigit k \<and> (k = [0x30] \<or> hd k \<noteq> 0x30) \<and> digitsValue k < 4294967295"

definition propertyOrder :: "(jsstring \<times> 'a) list \<Rightarrow> (jsstring \<times> 'a) list" where
  "propertyOrder ps =
     sort_key (\<lambda>p. digitsValue (fst p)) [p \<leftarrow> ps. isArrayIndex (fst p)]
     @ [p \<leftarrow> ps. \<not> isArrayIndex (fst p)]"

text \<open>
  A property whose value has no JSON text is left out; an array element that has none is
  written as \<open>null\<close>.
\<close>

definition memberText :: "jsstring \<times> jsstring option \<Rightarrow> jsstring option" where
  "memberText p = map_option (\<lambda>t. quoteJSONString (fst p) @ 0x3A # t) (snd p)"

definition elementText :: "jsstring option \<Rightarrow> jsstring" where
  "elementText t = (case t of None \<Rightarrow> js ''null'' | Some s \<Rightarrow> s)"

primrec JSON_stringify :: "(jsnumber \<Rightarrow> jsstring) \<Rightarrow> jsvalue \<Rightarrow> jsstring option" where
  "JSON_stringify numberText JUndefined = None"
| "JSON_stringify numberText JNull = Some (js ''null'')"
| "JSON_stringify numberText (JBool b) = Some (if b then js ''true'' else js ''false'')"
| "JSON_stringify numberText (JNumber n) = Some (numberText n)"
| "JSON_stringify numberText (JString s) = Some (quoteJSONString s)"
| "JSON_stringify numberText (JArray xs) =
     Some (0x5B # join (map elementText (map (JSON_stringify numberText) xs)) [0x2C] @ [0x5D])"
| "JSON_stringify numberText (JObject ps) =
     Some (0x7B #
           join (List.map_filter memberText
                   (propertyOrder (map (map_prod id (JSON_stringify numberText)) ps)))
             [0x2C]
           @ [0x7D])"

subsection \<open>Values that are their own JSON\<close>

text \<open>
  \<open>plainJSON\<close> holds of the values built from null, booleans, strings, arrays and
  objects whose keys are distinct and no array indices. \<open>startsValue\<close> and
  \<open>parsesBack\<close> state what is proved of them below: the text that
  \<open>JSON_stringify\<close> writes starts with the first character of a value, and the parser
  reads the value back from it, before any rest of the text, as soon as its bound is at
  least the length of the text.
\<close>

fun plainJSON :: "jsvalue \<Rightarrow> bool" where
  "plainJSON JUndefined = False"
| "plainJSON JNull = True"
| "plainJSON (JBool b) = True"
| "plainJSON (JNumber n) = False"
| "plainJSON (JString s) = True"
| "plainJSON (JArray xs) = list_all plainJSON xs"
| "plainJSON (JObject ps) =
     (distinct (map fst ps) \<and> list_all (\<lambda>p. \<not> isArrayIndex (fst p) \<and> plainJSON (snd p)) ps)"

definition startsValue :: "jsstring \<Rightarrow> bool" where
  "startsValue t \<longleftrightarrow> t \<noteq> [] \<and> hd t \<in> {0x22, 0x5B, 0x7B, 0x6E, 0x74, 0x66}"

definition parsesBack ::
  "(jsstring \<Rightarrow> jsnumber) \<Rightarrow> (jsnumber \<Rightarrow> jsstring) \<Rightarrow> jsvalue \<Rightarrow> bool" where
  "parsesBack toNumber numberText v \<longleftrightarrow>
     (\<exists>t. JSON_stringify numberText v = Some t \<and> startsValue t \<and>
          (\<forall>n rest. length t \<le> n \<longrightarrow> parseValue toNumber n (t @ rest) = Some (v, rest)))"

section \<open>tools.ts\<close>

text \<open>
  The capabilities behind the tools (weather, geocoding, news) are external: each is a
  parameter that maps the parsed arguments to the outcome its promise settles with,
  \<open>Return\<close> when it is fulfilled and \<open>Throw\<close> when it is rejected. The promise
  returned by \<open>handleToolCall\<close> is modelled the same way.
\<close>

record FunctionCall =
  name :: jsstring
  arguments :: jsstring

definition errorResult :: "jsstring \<Rightarrow> jsvalue" where
  "errorResult message = JObject [(js ''error'', JString message)]"

text \<open>The \<open>catch\<close> block shared by both versions of \<open>handleToolCall\<close>.\<close>

definition catchToolError :: "thrown \<Rightarrow> jsvalue completion" where
  "catchToolError error =
     (case error of
        JsError message \<Rightarrow> Return (errorResult message)
      | NonError v \<Rightarrow> Return (errorResult (js ''An unknown error occurred.'')))"

text \<open>\<open>call.arguments || "{}"\<close>\<close>

definition argumentsOrEmptyObject :: "jsstring \<Rightarrow> jsstring" where
  "argumentsOrEmptyObject a = (if a = [] then js ''{}'' else a)"

subsection \<open>The dispatcher with a \<open>switch\<close> (the version the component calls)\<close>

record capabilities =
  getWeather :: "jsvalue \<Rightarrow> jsvalue completion"
  getCoordinates :: "jsvalue \<Rightarrow> jsvalue completion"
  getNews :: "jsstring \<Rightarrow> jsvalue \<Rightarrow> jsvalue completion"
  getNewsSources :: "jsstring \<Rightarrow> jsvalue \<Rightarrow> jsvalue completion"

definition handleToolCall ::
  "(jsstring \<Rightarrow> jsvalue completion) \<Rightarrow> capabilities \<Rightarrow>
   'a FunctionCall_scheme \<Rightarrow> jsstring \<Rightarrow> jsvalue completion" where
  "handleToolCall parse caps call backendServerUrl =
     try_catch
       (bind (parse (argumentsOrEmptyObject (arguments call)))
          (\<lambda>args.
             if name call = js ''get_weather'' then getWeather caps args
             else if name call = js ''get_coordinates'' then getCoordinates caps args
             else if name call = js ''get_news'' then getNews caps backendServerUrl args
             else if name call = js ''get_news_sources'' then
               getNewsSources caps backendServerUrl args
             else Return (errorResult (js ''Unknown function call: '' @ name call))))
       catchToolError"

subsection \<open>The dispatcher with the table \<open>toolFunctions\<close> (src/frontend/src/app/tools.ts)\<close>

text \<open>
  \<open>toolFunctions\<close> is an object literal with four own properties. The member access
  \<open>toolFunctions[call.name]\<close> reads a property of that object: an own property when the
  key is one of the four, otherwise the property of that name of \<open>Object.prototype\<close>,
  from which every object literal inherits, otherwise \<open>undefined\<close>. The properties of
  \<open>Object.prototype\<close> belong to the platform and are the parameter
  \<open>objectPrototype\<close>; a property value is a function or some other object, and both
  are truthy.
\<close>

datatype property = Callable "jsvalue \<Rightarrow> jsvalue completion" | NotCallable

record tool_table =
  get_weather :: "jsvalue \<Rightarrow> jsvalue completion"
  get_coordinates :: "jsvalue \<Rightarrow> jsvalue completion"
  get_news :: "jsvalue \<Rightarrow> jsvalue completion"
  get_news_sources :: "jsvalue \<Rightarrow> jsvalue completion"

definition toolFunctions ::
  "(jsstring \<Rightarrow> property option) \<Rightarrow> tool_table \<Rightarrow> jsstring \<Rightarrow> property option" where
  "toolFunctions objectPrototype tbl key =
     (if key = js ''get_weather'' then Some (Callable (get_weather tbl))
      else if key = js ''get_coordinates'' then Some (Callable (get_coordinates tbl))
      else if key = js ''get_news'' then Some (Callable (get_news tbl))
      else if key = js ''get_news_sources'' then Some (Callable (get_news_sources tbl))
      else objectPrototype key)"

text \<open>Calling a value that is not a function throws a TypeError.\<close>

definition callProperty :: "property \<Rightarrow> jsvalue \<Rightarrow> jsvalue completion" where
  "callProperty p args =
     (case p of
        Callable f \<Rightarrow> f args
      | NotCallable \<Rightarrow> Throw (JsError (js ''toolFunction is not a function'')))"

definition handleToolCall_table ::
  "(jsstring \<Rightarrow> jsvalue completion) \<Rightarrow> (jsstring \<Rightarrow> property option) \<Rightarrow> tool_table \<Rightarrow>
   'a FunctionCall_scheme \<Rightarrow> jsvalue completion" where
  "handleToolCall_table parse objectPrototype tbl call =
     (case toolFunctions objectPrototype tbl (name call) of
        None \<Rightarrow> Return (errorResult (js ''Unknown function call: '' @ name call))
      | Some toolFunction \<Rightarrow>
          try_catch
            (bind (parse (argumentsOrEmptyObject (arguments call)))
               (\<lambda>args. callProperty toolFunction args))
            catchToolError)"

text \<open>A result is an error result when it is an object with the property \<open>error\<close>.\<close>

definition isErrorResult :: "jsvalue \<Rightarrow> bool" where
  "isErrorResult v = (case v of JObject ps \<Rightarrow> map_of ps (js ''error'') \<noteq> None | _ \<Rightarrow> False)"

text \<open>The names declared in \<open>tools\<close>, which are also the keys of \<open>toolFunctions\<close>.\<close>

definition toolNames :: "jsstring list" where
  "toolNames = [js ''get_weather'', js ''get_coordinates'', js ''get_news'', js ''get_news_sources'']"

section \<open>Unmute.tsx\<close>

text \<open>
  The component state that the handlers below write: the raw chat history, the list of
  dismissible errors, the console, the messages sent on the socket and the tool calls whose
  promise has not settled yet. \<open>makeErrorItem\<close> (of ErrorMessages) is a parameter.
  A state setter called with an updater function, \<open>setX((prev) => ...)\<close>, is applied to
  the current state in the order of the calls.
\<close>

datatype console_entry = ConsoleWarn jsstring | ConsoleError jsstring

datatype outbound =
    FunctionCallOutput jsstring "jsstring option"
  | ResponseCreate

record output_item = FunctionCall +
  item_type :: jsstring
  call_id :: jsstring

record envelope =
  env_type :: jsstring
  delta :: jsstring
  error_type :: jsstring
  error_message :: jsstring
  response_output :: "output_item list"
  debug_dict :: jsvalue

record 'e unmute =
  rawChatHistory :: "ChatMessage list"
  errors :: "'e list"
  console :: "console_entry list"
  outbox :: "outbound list"
  inflight :: "output_item list"
  debugDict :: "jsvalue option"

definition appendTurn :: "ChatMessage \<Rightarrow> 'e unmute \<Rightarrow> 'e unmute" where
  "appendTurn m st = st\<lparr>rawChatHistory := rawChatHistory st @ [m]\<rparr>"

text \<open>
  The body of the loop over \<open>data.response.output\<close>: the assistant Turn is appended and
  \<open>handleToolCall\<close> is started; its \<open>then\<close> callback runs in a later task, when the
  promise has settled.
\<close>

definition onOutputItem :: "'e unmute \<Rightarrow> output_item \<Rightarrow> 'e unmute" where
  "onOutputItem st call =
     (if item_type call \<noteq> js ''function_call'' then st
      else (appendTurn
              \<lparr>role = Assistant, content = None,
               tool_calls = Some [\<lparr>tc_id = call_id call, tc_name = name call,
                                   tc_arguments = arguments call\<rparr>],
               tool_call_id = None\<rparr> st)
           \<lparr>inflight := inflight st @ [call]\<rparr>)"

definition ignoredTypes :: "jsstring list" where
  "ignoredTypes =
     [js ''session.updated'', js ''response.created'', js ''response.text.delta'',
      js ''response.text.done'', js ''response.audio.done'',
      js ''conversation.item.input_audio_transcription.delta'',
      js ''input_audio_buffer.speech_stopped'', js ''input_audio_buffer.speech_started'',
      js ''unmute.interrupted_by_vad'', js ''unmute.response.text.delta.ready'',
      js ''unmute.response.audio.delta.ready'']"

text \<open>
  The effect that handles \<open>lastMessage\<close>, after \<open>JSON.parse\<close> of its data. Decoding and
  playing audio is outside the model.
\<close>

definition onMessage :: "(jsstring \<Rightarrow> 'e) \<Rightarrow> envelope \<Rightarrow> 'e unmute \<Rightarrow> 'e unmute" where
  "onMessage makeErrorItem data st =
     (if env_type data = js ''response.audio.delta'' then st
      else if env_type data = js ''unmute.additional_outputs'' then
        st\<lparr>debugDict := Some (debug_dict data)\<rparr>
      else if env_type data = js ''error'' then
        (if error_type data = js ''warning'' then
           st\<lparr>console := console st @
                 [ConsoleWarn (js ''Warning from server: '' @ error_message data)]\<rparr>
         else
           st\<lparr>console := console st @
                 [ConsoleError (js ''Error from server: '' @ error_message data)],
              errors := errors st @ [makeErrorItem (error_message data)]\<rparr>)
      else if env_type data = js ''conversation.item.input_audio_transcription.delta'' then
        appendTurn \<lparr>role = User, content = Some (js '' '' @ delta data),
                    tool_calls = None, tool_call_id = None\<rparr> st
      else if env_type data = js ''response.text.delta'' then
        appendTurn \<lparr>role = Assistant, content = Some (js '' '' @ delta data),
                    tool_calls = None, tool_call_id = None\<rparr> st
      else if env_type data = js ''response.function_call_arguments.delta'' then st
      else if env_type data = js ''response.done'' then foldl onOutputItem st (response_output data)
      else if env_type data \<notin> set ignoredTypes then
        st\<lparr>console := console st @ [ConsoleWarn (js ''Received unknown message:'')]\<rparr>
      else st)"

text \<open>
  The \<open>then\<close> callback of one tool call. \<open>JSON.stringify(toolResult)\<close> is
  \<open>undefined\<close> for an undefined result; the content of the Turn is \<open>None\<close> then.
\<close>

definition onToolResult ::
  "(jsvalue \<Rightarrow> jsstring option) \<Rightarrow> output_item \<Rightarrow> jsvalue \<Rightarrow> 'e unmute \<Rightarrow> 'e unmute" where
  "onToolResult stringify call toolResult st =
     (appendTurn \<lparr>role = Tool, content = stringify toolResult,
                  tool_calls = None, tool_call_id = Some (call_id call)\<rparr> st)
     \<lparr>outbox := outbox st @
        [FunctionCallOutput (call_id call) (stringify toolResult), ResponseCreate]\<rparr>"

text \<open>
  The tasks of the event loop that write the raw chat history during a session: an
  inbound message is handled, or the promise of one of the tool calls in flight settles
  with some result. Each task runs to its end before the next one starts, and nothing
  orders the settling of different calls.
\<close>

inductive task ::
  "(jsstring \<Rightarrow> 'e) \<Rightarrow> (jsvalue \<Rightarrow> jsstring option) \<Rightarrow> 'e unmute \<Rightarrow> 'e unmute \<Rightarrow> bool"
  for makeErrorItem stringify where
    inbound: "task makeErrorItem stringify st (onMessage makeErrorItem data st)"
  | settled:
      "call \<in> set (inflight st) \<Longrightarrow>
       task makeErrorItem stringify st
         (onToolResult stringify call toolResult (st\<lparr>inflight := remove1 call (inflight st)\<rparr>))"

inductive tasks ::
  "(jsstring \<Rightarrow> 'e) \<Rightarrow> (jsvalue \<Rightarrow> jsstring option) \<Rightarrow> 'e unmute \<Rightarrow> 'e unmute \<Rightarrow> bool"
  for makeErrorItem stringify where
    no_task: "tasks makeErrorItem stringify st st"
  | one_more: "task makeErrorItem stringify st st' \<Longrightarrow> tasks makeErrorItem stringify st' st'' \<Longrightarrow>
           tasks makeErrorItem stringify st st''"

subsection \<open>handleUploadMemories\<close>

text \<open>
  What one iteration's \<open>try\<close> block meets: the response is ok; the response is not ok
  and its text is read; the response is not ok and reading its text throws; or the
  request itself throws. \<open>upload filename body\<close> is that outcome for the POST of one
  file; the answer to \<open>confirm\<close> is a parameter too.
\<close>

datatype upload_outcome = ResponseOk | ResponseNotOk | ResponseNotOkTextThrew | FetchThrew

record upload_progress =
  successCount :: nat
  errorCount :: nat
  attempted :: "jsstring list"

text \<open>
  The \<open>try\<close> block of one iteration: \<open>None\<close> when the slot holds nothing to upload
  and the iteration does nothing, otherwise the outcome of the upload of that slot.
\<close>

definition uploadAttempt ::
  "(jsstring \<Rightarrow> jsstring \<Rightarrow> upload_outcome) \<Rightarrow> jsstring \<Rightarrow> storage \<Rightarrow>
   jsstring \<Rightarrow> upload_outcome option" where
  "uploadAttempt upload voiceName st timestamp =
     (case getItem st (memoryKey voiceName timestamp) of
        None \<Rightarrow> None
      | Some memoryHistory \<Rightarrow>
          if memoryHistory = [] then None
          else Some (upload (timestamp @ js ''.json'') memoryHistory))"

definition uploadOne ::
  "(jsstring \<Rightarrow> jsstring \<Rightarrow> upload_outcome) \<Rightarrow> jsstring \<Rightarrow> storage \<Rightarrow>
   upload_progress \<Rightarrow> jsstring \<Rightarrow> upload_progress" where
  "uploadOne upload voiceName st acc timestamp =
     (case uploadAttempt upload voiceName st timestamp of
        None \<Rightarrow> acc
      | Some ResponseOk \<Rightarrow>
          acc\<lparr>successCount := successCount acc + 1,
              attempted := attempted acc @ [timestamp]\<rparr>
      | Some ResponseNotOk \<Rightarrow>
          acc\<lparr>errorCount := errorCount acc + 1,
              attempted := attempted acc @ [timestamp]\<rparr>
      | Some ResponseNotOkTextThrew \<Rightarrow>
          acc\<lparr>errorCount := errorCount acc + 1,
              attempted := attempted acc @ [timestamp]\<rparr>
      | Some FetchThrew \<Rightarrow>
          acc\<lparr>errorCount := errorCount acc + 1,
              attempted := attempted acc @ [timestamp]\<rparr>)"

datatype upload_report =
    Declined
  | NoLocalMemories
  | UploadComplete upload_progress

definition handleUploadMemories ::
  "bool \<Rightarrow> (jsstring \<Rightarrow> jsstring \<Rightarrow> upload_outcome) \<Rightarrow> jsstring \<Rightarrow> storage \<Rightarrow> upload_report" where
  "handleUploadMemories confirmed upload voiceName st =
     (if \<not> confirmed then Declined
      else let memoryKeys = getMemoryList voiceName st in
        if memoryKeys = [] then NoLocalMemories
        else UploadComplete
               (foldl (uploadOne upload voiceName st)
                  \<lparr>successCount = 0, errorCount = 0, attempted = []\<rparr> memoryKeys))"

section \<open>Properties of compressChatHistory\<close>

lemma compress_step_nonempty: "fst (compress_step sep (acc, h) r) \<noteq> []"
  by (cases "content (last acc)"; cases "content (h r)")
     (simp_all add: compress_step_def Let_def)

lemma compress_step_append:
  "acc \<noteq> [] \<Longrightarrow>
   compress_step sep (pre @ acc, h) r
     = (pre @ fst (compress_step sep (acc, h) r), snd (compress_step sep (acc, h) r))"
  by (cases "content (last acc)"; cases "content (h r)")
     (simp_all add: compress_step_def Let_def butlast_append)

lemma foldl_compress_append:
  "acc \<noteq> [] \<Longrightarrow>
   foldl (compress_step sep) (pre @ acc, h) rs
     = (pre @ fst (foldl (compress_step sep) (acc, h) rs),
        snd (foldl (compress_step sep) (acc, h) rs))"
proof (induction rs arbitrary: acc h)
  case Nil
  show ?case by simp
next
  case (Cons r rs)
  obtain acc' h' where step: "compress_step sep (acc, h) r = (acc', h')"
    by (cases "compress_step sep (acc, h) r")
  then have ne: "acc' \<noteq> []" using compress_step_nonempty [of sep acc h r] by simp
  have "compress_step sep (pre @ acc, h) r = (pre @ acc', h')"
    using Cons.prems step by (simp add: compress_step_append)
  then show ?case using Cons.IH [OF ne, of h'] step by simp
qed

lemma compress_step_falsy:
  assumes "\<not> truthy (content (h r))"
  shows "compress_step sep (acc, h) r = (acc @ [h r], h)"
proof (cases "content (h r)")
  case None
  then show ?thesis by (simp add: compress_step_def Let_def)
next
  case (Some c)
  with assms have "c = []" by simp
  with Some have "(h r)\<lparr>content := Some (trimStart c)\<rparr> = h r"
    by (simp add: trimStart_def)
  then show ?thesis using Some \<open>c = []\<close> by (simp add: compress_step_def Let_def)
qed

lemma compress_step_after_falsy:
  "\<not> truthy (content l) \<Longrightarrow>
   compress_step sep ([l], h) r
     = (l # fst (compress_step sep ([], h) r), snd (compress_step sep ([], h) r))"
  by (cases "content (h r)") (simp_all add: compress_step_def Let_def)

lemma foldl_compress_after_falsy:
  assumes "\<not> truthy (content l)"
  shows "foldl (compress_step sep) ([l], h) rs
       = (l # fst (foldl (compress_step sep) ([], h) rs),
          snd (foldl (compress_step sep) ([], h) rs))"
proof (cases rs)
  case Nil
  then show ?thesis by simp
next
  case (Cons r rs')
  obtain acc' h' where step: "compress_step sep ([], h) r = (acc', h')"
    by (cases "compress_step sep ([], h) r")
  then have ne: "acc' \<noteq> []" using compress_step_nonempty [of sep "[]" h r] by simp
  have "compress_step sep ([l], h) r = ([l] @ acc', h')"
    using assms step by (simp add: compress_step_after_falsy)
  then show ?thesis
    using foldl_compress_append [OF ne, of sep "[l]" h' rs'] step Cons by simp
qed

text \<open>What the loop writes into the heap is the trimmed content of a message.\<close>

lemma compress_step_heap:
  "snd (compress_step sep (acc, h) r) x = h x
   \<or> (\<exists>c. content (h x) = Some c \<and> snd (compress_step sep (acc, h) r) x = (h x)\<lparr>content := Some (trimStart c)\<rparr>)"
  by (cases "content (last acc)"; cases "content (h r)")
     (auto simp: compress_step_def Let_def)

lemma trimStart_idem: "trimStart (trimStart c) = trimStart c"
  unfolding trimStart_def by (induction c) auto

lemma foldl_compress_heap:
  "snd (foldl (compress_step sep) (acc, h) rs) x = h x
   \<or> (\<exists>c. content (h x) = Some c
          \<and> snd (foldl (compress_step sep) (acc, h) rs) x = (h x)\<lparr>content := Some (trimStart c)\<rparr>)"
proof (induction rs arbitrary: acc h)
  case Nil
  show ?case by simp
next
  case (Cons r rs)
  obtain acc' h' where step: "compress_step sep (acc, h) r = (acc', h')"
    by (cases "compress_step sep (acc, h) r")
  from compress_step_heap [of sep acc h r x] step
  have one: "h' x = h x \<or> (\<exists>c. content (h x) = Some c \<and> h' x = (h x)\<lparr>content := Some (trimStart c)\<rparr>)"
    by simp
  from Cons.IH [of acc' h']
  have rest: "snd (foldl (compress_step sep) (acc', h') rs) x = h' x
     \<or> (\<exists>c. content (h' x) = Some c
          \<and> snd (foldl (compress_step sep) (acc', h') rs) x = (h' x)\<lparr>content := Some (trimStart c)\<rparr>)" .
  from one rest show ?case
    unfolding foldl_Cons step by (auto simp: trimStart_idem)
qed

lemma foldl_compress_heap_falsy:
  assumes "\<not> truthy (content (h x))"
  shows "snd (foldl (compress_step sep) (acc, h) rs) x = h x"
proof -
  from foldl_compress_heap [of sep acc h rs x] show ?thesis
  proof
    assume "snd (foldl (compress_step sep) (acc, h) rs) x = h x"
    then show ?thesis .
  next
    assume "\<exists>c. content (h x) = Some c
          \<and> snd (foldl (compress_step sep) (acc, h) rs) x = (h x)\<lparr>content := Some (trimStart c)\<rparr>"
    then obtain c where c: "content (h x) = Some c"
      and s: "snd (foldl (compress_step sep) (acc, h) rs) x = (h x)\<lparr>content := Some (trimStart c)\<rparr>"
      by blast
    from assms c have "c = []" by simp
    with c s show ?thesis by (simp add: trimStart_def)
  qed
qed

lemma compress_step_heap_other:
  "x \<noteq> r \<Longrightarrow> snd (compress_step sep (acc, h) r) x = h x"
  by (cases "content (last acc)"; cases "content (h r)")
     (auto simp: compress_step_def Let_def)

lemma foldl_compress_heap_other:
  "x \<notin> set rs \<Longrightarrow> snd (foldl (compress_step sep) (acc, h) rs) x = h x"
proof (induction rs arbitrary: acc h)
  case Nil
  show ?case by simp
next
  case (Cons r rs)
  obtain acc' h' where step: "compress_step sep (acc, h) r = (acc', h')"
    by (cases "compress_step sep (acc, h) r")
  have "h' x = h x" using compress_step_heap_other [of x r sep acc h] Cons.prems step by simp
  then show ?case using Cons.IH [of acc' h'] Cons.prems step by simp
qed

text \<open>The loop reads the heap only at the references of the input array.\<close>

lemma compress_step_frame:
  assumes "h1 r = h2 r"
  shows "fst (compress_step sep (acc, h1) r) = fst (compress_step sep (acc, h2) r)
       \<and> snd (compress_step sep (acc, h1) r) r = snd (compress_step sep (acc, h2) r) r"
  using assms
  by (cases "content (last acc)"; cases "content (h2 r)")
     (auto simp: compress_step_def Let_def)

lemma foldl_compress_frame:
  "\<forall>x \<in> set rs. h1 x = h2 x \<Longrightarrow>
   fst (foldl (compress_step sep) (acc, h1) rs) = fst (foldl (compress_step sep) (acc, h2) rs)"
proof (induction rs arbitrary: acc h1 h2)
  case Nil
  show ?case by simp
next
  case (Cons r rs)
  obtain a1 g1 where s1: "compress_step sep (acc, h1) r = (a1, g1)"
    by (cases "compress_step sep (acc, h1) r")
  obtain a2 g2 where s2: "compress_step sep (acc, h2) r = (a2, g2)"
    by (cases "compress_step sep (acc, h2) r")
  have r: "h1 r = h2 r" using Cons.prems by simp
  from compress_step_frame [of h1 r h2 sep acc] r s1 s2
  have a: "a1 = a2" and gr: "g1 r = g2 r" by simp_all
  have "\<forall>x \<in> set rs. g1 x = g2 x"
  proof
    fix x assume x: "x \<in> set rs"
    show "g1 x = g2 x"
    proof (cases "x = r")
      case True
      with gr show ?thesis by simp
    next
      case False
      then have "g1 x = h1 x" "g2 x = h2 x"
        using compress_step_heap_other [of x r sep acc h1]
              compress_step_heap_other [of x r sep acc h2] s1 s2 by simp_all
      with Cons.prems x show ?thesis by simp
    qed
  qed
  from Cons.IH [of g1 g2 a2] this a s1 s2 show ?case by simp
qed

lemma compress_falsy_barrier:
  assumes "\<not> truthy (content (h r))"
  shows "fst (compressChatHistory h (xs @ r # ys) sep)
       = fst (compressChatHistory h xs sep) @ h r
           # fst (compressChatHistory (snd (compressChatHistory h xs sep)) ys sep)"
    and "set xs \<inter> set ys = {} \<Longrightarrow>
         fst (compressChatHistory h (xs @ r # ys) sep)
       = fst (compressChatHistory h xs sep) @ h r # fst (compressChatHistory h ys sep)"
proof -
  obtain acc h' where left: "foldl (compress_step sep) ([], h) xs = (acc, h')"
    by (cases "foldl (compress_step sep) ([], h) xs")
  have hr: "h' r = h r"
    using foldl_compress_heap_falsy [of h r sep "[]" xs] assms left by simp
  then have falsy: "\<not> truthy (content (h' r))" using assms by simp
  have "foldl (compress_step sep) ([], h) (xs @ r # ys)
      = foldl (compress_step sep) (acc @ [h r], h') ys"
    using left compress_step_falsy [of h' r sep acc] falsy hr by simp
  also have "\<dots> = (acc @ fst (foldl (compress_step sep) ([h r], h') ys),
                   snd (foldl (compress_step sep) ([h r], h') ys))"
    by (rule foldl_compress_append) simp
  finally have "fst (foldl (compress_step sep) ([], h) (xs @ r # ys))
      = acc @ h r # fst (foldl (compress_step sep) ([], h') ys)"
    using assms by (simp add: foldl_compress_after_falsy)
  then show general: "fst (compressChatHistory h (xs @ r # ys) sep)
       = fst (compressChatHistory h xs sep) @ h r
           # fst (compressChatHistory (snd (compressChatHistory h xs sep)) ys sep)"
    using left by (simp add: compressChatHistory_def)
  assume disj: "set xs \<inter> set ys = {}"
  have "\<forall>x \<in> set ys. h' x = h x"
  proof
    fix x assume "x \<in> set ys"
    with disj have "x \<notin> set xs" by blast
    then show "h' x = h x"
      using foldl_compress_heap_other [of x xs sep "[]" h] left by simp
  qed
  then have "fst (foldl (compress_step sep) ([], h') ys) = fst (foldl (compress_step sep) ([], h) ys)"
    using foldl_compress_frame [of ys h' h sep "[]"] by simp
  with general left show "fst (compressChatHistory h (xs @ r # ys) sep)
       = fst (compressChatHistory h xs sep) @ h r # fst (compressChatHistory h ys sep)"
    by (simp add: compressChatHistory_def)
qed

lemma join_Cons: "join (x # xs) sep = x @ concat (map (\<lambda>y. sep @ y) xs)"
  by (induction xs arbitrary: x) simp_all

lemma foldl_compress_merge:
  assumes "\<forall>x \<in> set rs. role (H x) = role a"
      and "map (\<lambda>x. content (H x)) rs = map Some ds"
      and "\<forall>d \<in> set ds. d \<noteq> []"
      and "content a = Some c" and "c \<noteq> []"
  shows "foldl (compress_step sep) ([a], H) rs
       = ([a\<lparr>content := Some (c @ concat (map (\<lambda>y. sep @ y) ds))\<rparr>], H)"
  using assms
proof (induction rs arbitrary: a c ds)
  case Nil
  then show ?case by simp
next
  case (Cons r rs)
  from Cons.prems(2) obtain d ds' where ds: "ds = d # ds'" and d: "content (H r) = Some d"
    and rest: "map (\<lambda>x. content (H x)) rs = map Some ds'"
    by (cases ds) auto
  from Cons.prems(3) ds have dne: "d \<noteq> []" and dsne: "\<forall>e \<in> set ds'. e \<noteq> []" by auto
  let ?a' = "a\<lparr>content := Some (c @ sep @ d)\<rparr>"
  have step: "compress_step sep ([a], H) r = ([?a'], H)"
    using Cons.prems(1,4,5) d dne by (simp add: compress_step_def Let_def)
  have "foldl (compress_step sep) ([?a'], H) rs
      = ([?a'\<lparr>content := Some ((c @ sep @ d) @ concat (map (\<lambda>y. sep @ y) ds'))\<rparr>], H)"
    by (rule Cons.IH) (use Cons.prems(1,5) rest dsne in auto)
  then show ?case using step ds by simp
qed

lemma contents_after_trim:
  "map (\<lambda>x. content (h x)) rs = map Some cs \<Longrightarrow>
   map (\<lambda>x. content ((h(r := (h r)\<lparr>content := Some t\<rparr>)) x)) rs
     = map Some (map2 (\<lambda>x d. if x = r then t else d) rs cs)"
proof (induction rs arbitrary: cs)
  case Nil
  then show ?case by simp
next
  case (Cons x rs)
  then obtain d ds where "cs = d # ds" "content (h x) = Some d"
      "map (\<lambda>x. content (h x)) rs = map Some ds"
    by (cases cs) auto
  then show ?case using Cons.IH [of ds] by simp
qed

lemma map2_unaliased:
  "r \<notin> set rs \<Longrightarrow> length rs = length cs \<Longrightarrow> map2 (\<lambda>x d. if x = r then t else d) rs cs = cs"
proof (induction rs arbitrary: cs)
  case Nil
  then show ?case by simp
next
  case (Cons x rs)
  then obtain d ds where "cs = d # ds" by (cases cs) auto
  with Cons show ?case by auto
qed


text \<open>
  C1, as the code has it. A non-empty run of Turns of one role, each with a non-null and
  non-empty content, the first still non-empty once its leading white space is removed,
  is compressed to exactly one Turn: the first Turn with its content replaced by the
  contents joined with the separator in their order, where the content of the first Turn,
  and of every later Turn that is the same object as the first, is taken without its
  leading white space. The loop leaves the first message trimmed in the heap. When the
  first object does not occur again, the contents joined are the original ones but for
  the trimmed first.
\<close>

theorem compress_same_role_joined:
  assumes "\<forall>x \<in> set rs. role (h x) = role (h r)"
      and "map (\<lambda>x. content (h x)) (r # rs) = map Some (c # cs)"
      and "\<forall>d \<in> set cs. d \<noteq> []"
      and "trimStart c \<noteq> []"
  shows "compressChatHistory h (r # rs) sep
           = ([(h r)\<lparr>content :=
                 Some (join (trimStart c # map2 (\<lambda>x d. if x = r then trimStart c else d) rs cs)
                         sep)\<rparr>],
              h(r := (h r)\<lparr>content := Some (trimStart c)\<rparr>))
       \<and> (r \<notin> set rs \<longrightarrow>
            fst (compressChatHistory h (r # rs) sep)
              = [(h r)\<lparr>content := Some (join (trimStart c # cs) sep)\<rparr>])"
proof -
  let ?m = "(h r)\<lparr>content := Some (trimStart c)\<rparr>"
  let ?H = "h(r := ?m)"
  let ?ds = "map2 (\<lambda>x d. if x = r then trimStart c else d) rs cs"
  have c: "content (h r) = Some c" and rest: "map (\<lambda>x. content (h x)) rs = map Some cs"
    using assms(2) by auto
  have first: "compress_step sep ([], h) r = ([?m], ?H)"
    using c by (simp add: compress_step_def Let_def)
  have roles: "\<forall>x \<in> set rs. role (?H x) = role ?m"
    using assms(1) by simp
  have contents: "map (\<lambda>x. content (?H x)) rs = map Some ?ds"
    by (rule contents_after_trim) (rule rest)
  have "set ?ds \<subseteq> insert (trimStart c) (set cs)"
    using set_zip_rightD by fastforce
  then have nonempty: "\<forall>d \<in> set ?ds. d \<noteq> []"
    using assms(3,4) by auto
  have "foldl (compress_step sep) ([?m], ?H) rs
      = ([?m\<lparr>content := Some (trimStart c @ concat (map (\<lambda>y. sep @ y) ?ds))\<rparr>], ?H)"
    using foldl_compress_merge [of rs ?H ?m ?ds "trimStart c" sep] roles contents nonempty assms(4)
    by simp
  then have all: "compressChatHistory h (r # rs) sep
           = ([(h r)\<lparr>content := Some (join (trimStart c # ?ds) sep)\<rparr>], ?H)"
    using first by (simp add: compressChatHistory_def join_Cons)
  have len: "length rs = length cs"
    using rest by (metis length_map)
  show ?thesis
    using all by (simp add: map2_unaliased len)
qed


theorem compress_same_role_joined_witness:
  "compressChatHistory
     (\<lambda>r. if r = 0
          then \<lparr>role = User, content = Some (js '' hi''), tool_calls = None, tool_call_id = None\<rparr>
          else \<lparr>role = User, content = Some (js ''there''), tool_calls = None, tool_call_id = None\<rparr>)
     [0, 1, 0] (js '', '')
   = ([\<lparr>role = User, content = Some (js ''hi, there, hi''), tool_calls = None,
        tool_call_id = None\<rparr>],
      (\<lambda>r. if r = 0
          then \<lparr>role = User, content = Some (js '' hi''), tool_calls = None, tool_call_id = None\<rparr>
          else \<lparr>role = User, content = Some (js ''there''), tool_calls = None, tool_call_id = None\<rparr>)
      (0 := \<lparr>role = User, content = Some (js ''hi''), tool_calls = None, tool_call_id = None\<rparr>))"
  using compress_same_role_joined
    [of "[1, 0]"
        "\<lambda>r. if r = 0
          then \<lparr>role = User, content = Some (js '' hi''), tool_calls = None, tool_call_id = None\<rparr>
          else \<lparr>role = User, content = Some (js ''there''), tool_calls = None, tool_call_id = None\<rparr>"
        0 "js '' hi''" "[js ''there'', js '' hi'']" "js '', ''"]
  by (simp add: js_def trimStart_def isWhiteSpace_def)


text \<open>
  The claim as it is written fails in four ways: the leading white space of the first
  content is not part of the merged content; when the first object occurs again, its
  later occurrences are merged without their leading white space too; a Turn with empty
  content is not merged; and the empty history is compressed to no Turn at all.
\<close>

theorem compress_same_role_joined_counterexample:
  "map content
     (fst (compressChatHistory
        (\<lambda>r. if r = 0
             then \<lparr>role = User, content = Some (js '' hi''), tool_calls = None, tool_call_id = None\<rparr>
             else \<lparr>role = User, content = Some (js ''there''), tool_calls = None, tool_call_id = None\<rparr>)
        [0, 1] []))
     \<noteq> [Some (join [js '' hi'', js ''there''] [])]
   \<and> map content
     (fst (compressChatHistory
        (\<lambda>r. \<lparr>role = User, content = Some (js '' hi''), tool_calls = None, tool_call_id = None\<rparr>)
        [0, 0] (js '','')))
     = [Some (js ''hi,hi'')]
   \<and> js ''hi,hi'' \<noteq> join [js '' hi'', js '' hi''] (js '','')
   \<and> length
       (fst (compressChatHistory
          (\<lambda>r. if r = 0
               then \<lparr>role = User, content = Some (js ''a''), tool_calls = None, tool_call_id = None\<rparr>
               else \<lparr>role = User, content = Some [], tool_calls = None, tool_call_id = None\<rparr>)
          [0, 1] (js '', ''))) = 2
   \<and> length
       (fst (compressChatHistory
          (\<lambda>r. \<lparr>role = User, content = Some (js ''a''), tool_calls = None, tool_call_id = None\<rparr>)
          [] (js '', ''))) = 0"
  by (simp add: compressChatHistory_def compress_step_def Let_def js_def trimStart_def
        isWhiteSpace_def)


text \<open>
  C2. A Turn whose content is null is never merged: it is an element of the compressed
  history as it is, the Turns before it and the Turns after it are compressed without it,
  whatever their roles; the Turns after it are compressed from the heap that the Turns
  before it leave, which is the heap given when no object occurs on both sides.
\<close>

theorem compress_null_never_merged:
  "content (h r) = None \<Longrightarrow>
   fst (compressChatHistory h (xs @ r # ys) sep)
     = fst (compressChatHistory h xs sep) @ h r
         # fst (compressChatHistory (snd (compressChatHistory h xs sep)) ys sep)
   \<and> (set xs \<inter> set ys = {} \<longrightarrow>
        fst (compressChatHistory h (xs @ r # ys) sep)
          = fst (compressChatHistory h xs sep) @ h r # fst (compressChatHistory h ys sep))"
  using compress_falsy_barrier [of h r xs ys sep] by simp


theorem compress_null_never_merged_witness:
  "fst (compressChatHistory
     (\<lambda>r. if r = 0
          then \<lparr>role = Assistant, content = Some (js ''a''), tool_calls = None, tool_call_id = None\<rparr>
          else if r = 1
          then \<lparr>role = Assistant, content = None,
                tool_calls = Some [\<lparr>tc_id = js ''1'', tc_name = js ''get_news'', tc_arguments = js ''{}''\<rparr>],
                tool_call_id = None\<rparr>
          else \<lparr>role = Assistant, content = Some (js ''b''), tool_calls = None, tool_call_id = None\<rparr>)
     ([0] @ 1 # [2]) [])
   = [\<lparr>role = Assistant, content = Some (js ''a''), tool_calls = None, tool_call_id = None\<rparr>,
      \<lparr>role = Assistant, content = None,
       tool_calls = Some [\<lparr>tc_id = js ''1'', tc_name = js ''get_news'', tc_arguments = js ''{}''\<rparr>],
       tool_call_id = None\<rparr>,
      \<lparr>role = Assistant, content = Some (js ''b''), tool_calls = None, tool_call_id = None\<rparr>]"
  using compress_null_never_merged
    [of "\<lambda>r. if r = 0
          then \<lparr>role = Assistant, content = Some (js ''a''), tool_calls = None, tool_call_id = None\<rparr>
          else if r = 1
          then \<lparr>role = Assistant, content = None,
                tool_calls = Some [\<lparr>tc_id = js ''1'', tc_name = js ''get_news'', tc_arguments = js ''{}''\<rparr>],
                tool_call_id = None\<rparr>
          else \<lparr>role = Assistant, content = Some (js ''b''), tool_calls = None, tool_call_id = None\<rparr>"
        1 "[0]" "[2]" "[]"]
  by (simp add: compressChatHistory_def compress_step_def Let_def js_def trimStart_def
        isWhiteSpace_def)

text \<open>
  C10. A Turn whose content is the empty string is never merged either: it is pushed as
  its own Turn, and the Turn that follows it starts a new compressed Turn.
\<close>

theorem compress_empty_never_merged:
  "content (h r) = Some [] \<Longrightarrow>
   fst (compressChatHistory h (xs @ r # ys) sep)
     = fst (compressChatHistory h xs sep) @ h r
         # fst (compressChatHistory (snd (compressChatHistory h xs sep)) ys sep)
   \<and> (set xs \<inter> set ys = {} \<longrightarrow>
        fst (compressChatHistory h (xs @ r # ys) sep)
          = fst (compressChatHistory h xs sep) @ h r # fst (compressChatHistory h ys sep))"
  using compress_falsy_barrier [of h r xs ys sep] by simp

theorem compress_empty_never_merged_witness:
  "fst (compressChatHistory
     (\<lambda>r. if r = 0
          then \<lparr>role = User, content = Some (js ''a''), tool_calls = None, tool_call_id = None\<rparr>
          else if r = 1
          then \<lparr>role = User, content = Some [], tool_calls = None, tool_call_id = None\<rparr>
          else \<lparr>role = User, content = Some (js ''b''), tool_calls = None, tool_call_id = None\<rparr>)
     ([0] @ 1 # [2]) (js '' ''))
   = [\<lparr>role = User, content = Some (js ''a''), tool_calls = None, tool_call_id = None\<rparr>,
      \<lparr>role = User, content = Some [], tool_calls = None, tool_call_id = None\<rparr>,
      \<lparr>role = User, content = Some (js ''b''), tool_calls = None, tool_call_id = None\<rparr>]"
  using compress_empty_never_merged
    [of "\<lambda>r. if r = 0
          then \<lparr>role = User, content = Some (js ''a''), tool_calls = None, tool_call_id = None\<rparr>
          else if r = 1
          then \<lparr>role = User, content = Some [], tool_calls = None, tool_call_id = None\<rparr>
          else \<lparr>role = User, content = Some (js ''b''), tool_calls = None, tool_call_id = None\<rparr>"
        1 "[0]" "[2]" "js '' ''"]
  by (simp add: compressChatHistory_def compress_step_def Let_def js_def trimStart_def
        isWhiteSpace_def)

section \<open>Properties of persistence and snapshots\<close>

lemma getItem_setItem:
  "getItem (setItem k v st) k' = (if k' = k then Some v else getItem st k')"
  by (induction st) (auto simp: getItem_def)

lemma storage_keys_setItem:
  "storage_keys (setItem k v st)
     = (if k \<in> set (storage_keys st) then storage_keys st else storage_keys st @ [k])"
  by (induction st) (force simp: storage_keys_def)+


subsection \<open>JSON.parse reads back what JSON.stringify writes\<close>

lemma hexValue_hexDigit: "n < 16 \<Longrightarrow> hexValue (hexDigit n) = Some n"
proof -
  assume n: "n < 16"
  have "unat (of_nat (48 + n) :: 16 word) = (48 + n) mod 2 ^ LENGTH(16)"
    by (rule unat_of_nat)
  then have a: "unat (of_nat (48 + n) :: 16 word) = 48 + n"
    using n by simp
  have "unat (of_nat (87 + n) :: 16 word) = (87 + n) mod 2 ^ LENGTH(16)"
    by (rule unat_of_nat)
  then have b: "unat (of_nat (87 + n) :: 16 word) = 87 + n"
    using n by simp
  show ?thesis
  proof (cases "n < 10")
    case True
    then have "hexDigit n = of_nat (48 + n)" by (simp only: hexDigit_def if_True)
    then have "hexValue (hexDigit n) =
       (if 48 \<le> 48 + n \<and> 48 + n \<le> 57 then Some (48 + n - 48)
      else if 97 \<le> 48 + n \<and> 48 + n \<le> 102 then Some (48 + n - 87)
      else if 65 \<le> 48 + n \<and> 48 + n \<le> 70 then Some (48 + n - 55)
      else None)"
      by (simp only: hexValue_def Let_def a)
    then show ?thesis using True by simp
  next
    case False
    then have "hexDigit n = of_nat (87 + n)" by (simp only: hexDigit_def if_False)
    then have "hexValue (hexDigit n) =
       (if 48 \<le> 87 + n \<and> 87 + n \<le> 57 then Some (87 + n - 48)
      else if 97 \<le> 87 + n \<and> 87 + n \<le> 102 then Some (87 + n - 87)
      else if 65 \<le> 87 + n \<and> 87 + n \<le> 70 then Some (87 + n - 55)
      else None)"
      by (simp only: hexValue_def Let_def b)
    then show ?thesis using False n by simp
  qed
qed

lemma hex_digits_value:
  "((u div 4096 * 16 + u div 256 mod 16) * 16 + u div 16 mod 16) * 16 + u mod 16 = (u::nat)"
proof -
  have "u div 4096 = u div 256 div 16"
    using div_mult2_eq [of u 256 16] by simp
  then have a: "u div 4096 * 16 + u div 256 mod 16 = u div 256"
    using div_mult_mod_eq [of "u div 256" 16] by simp
  have "u div 256 = u div 16 div 16"
    using div_mult2_eq [of u 16 16] by simp
  then have b: "u div 256 * 16 + u div 16 mod 16 = u div 16"
    using div_mult_mod_eq [of "u div 16" 16] by simp
  have c: "u div 16 * 16 + u mod 16 = u"
    using div_mult_mod_eq [of u 16] by simp
  show ?thesis by (simp only: a b c)
qed

lemma hex4_unicodeEscape:
  "hex4 (hexDigit (unat c div 4096)) (hexDigit (unat c div 256 mod 16))
        (hexDigit (unat c div 16 mod 16)) (hexDigit (unat c mod 16)) = Some c"
proof -
  have "unat c < 2 ^ LENGTH(16)" by (rule unsigned_less)
  then have u: "unat c < 65536" by simp
  then have d: "unat c div 4096 < 16" by simp
  have v: "hexValue (hexDigit (unat c div 4096)) = Some (unat c div 4096)"
    "hexValue (hexDigit (unat c div 256 mod 16)) = Some (unat c div 256 mod 16)"
    "hexValue (hexDigit (unat c div 16 mod 16)) = Some (unat c div 16 mod 16)"
    "hexValue (hexDigit (unat c mod 16)) = Some (unat c mod 16)"
    using d by (simp_all add: hexValue_hexDigit)
  have "hex4 (hexDigit (unat c div 4096)) (hexDigit (unat c div 256 mod 16))
        (hexDigit (unat c div 16 mod 16)) (hexDigit (unat c mod 16))
      = Some (of_nat (((unat c div 4096 * 16 + unat c div 256 mod 16) * 16
                        + unat c div 16 mod 16) * 16 + unat c mod 16))"
    by (simp only: hex4_def v prod.case option.case)
  also have "\<dots> = Some (of_nat (unat c))"
    by (simp only: hex_digits_value)
  finally show ?thesis by simp
qed


lemma parseStringChars_unicodeEscape:
  "parseStringChars (unicodeEscape c @ cs) acc = parseStringChars cs (acc @ [c])"
  by (simp add: unicodeEscape_def hex4_unicodeEscape)

lemma parseStringChars_raw:
  "c \<noteq> 0x22 \<Longrightarrow> c \<noteq> 0x5C \<Longrightarrow> \<not> c < 0x20 \<Longrightarrow>
   parseStringChars (c # cs) acc = parseStringChars cs (acc @ [c])"
  by simp

lemma surrogate_raw: "isSurrogate c \<Longrightarrow> c \<noteq> 0x22 \<and> c \<noteq> 0x5C \<and> \<not> c < 0x20"
  by (auto simp: isSurrogate_def word_le_nat_alt word_less_nat_alt)

lemma parseStringChars_quoteCodeUnit:
  "parseStringChars (quoteCodeUnit c @ cs) acc = parseStringChars cs (acc @ [c])"
proof -
  consider "c = 0x08" | "c = 0x09" | "c = 0x0A" | "c = 0x0C" | "c = 0x0D" | "c = 0x22"
    | "c = 0x5C"
    | "c \<notin> {0x08, 0x09, 0x0A, 0x0C, 0x0D, 0x22, 0x5C}" "c < 0x20 \<or> isSurrogate c"
    | "c \<notin> {0x08, 0x09, 0x0A, 0x0C, 0x0D, 0x22, 0x5C}" "\<not> (c < 0x20 \<or> isSurrogate c)"
    by blast
  then show ?thesis
  proof cases
    case 8
    then have "quoteCodeUnit c = unicodeEscape c" by (simp add: quoteCodeUnit_def)
    then show ?thesis by (simp only: parseStringChars_unicodeEscape)
  next
    case 9
    then have "quoteCodeUnit c = [c]" by (simp add: quoteCodeUnit_def)
    then show ?thesis using 9 by (simp only: append_Cons append_Nil) (simp add: parseStringChars_raw)
  qed (simp_all add: quoteCodeUnit_def unescape_def)
qed

lemma parseStringChars_quoteChars:
  "parseStringChars (quoteChars s @ 0x22 # rest) acc = Some (acc @ s, rest)"
proof (induction s arbitrary: acc rule: quoteChars.induct)
  case 1
  show ?case by simp
next
  case (2 c)
  have "parseStringChars (quoteChars [c] @ 0x22 # rest) acc
      = parseStringChars (0x22 # rest) (acc @ [c])"
    by (simp only: quoteChars.simps parseStringChars_quoteCodeUnit)
  then show ?case by simp
next
  case (3 c d cs)
  show ?case
  proof (cases "isHighSurrogate c \<and> isLowSurrogate d")
    case True
    then have "isSurrogate c" "isSurrogate d"
      by (auto simp: isSurrogate_def isHighSurrogate_def isLowSurrogate_def word_le_nat_alt)
    then have raw: "c \<noteq> 0x22 \<and> c \<noteq> 0x5C \<and> \<not> c < 0x20" "d \<noteq> 0x22 \<and> d \<noteq> 0x5C \<and> \<not> d < 0x20"
      using surrogate_raw [of c] surrogate_raw [of d] by blast+
    have "quoteChars (c # d # cs) = c # d # quoteChars cs" using True by simp
    then have "parseStringChars (quoteChars (c # d # cs) @ 0x22 # rest) acc
        = parseStringChars (quoteChars cs @ 0x22 # rest) ((acc @ [c]) @ [d])"
      using raw by simp
    then show ?thesis using "3.IH"(1) [OF True, of "(acc @ [c]) @ [d]"] by simp
  next
    case False
    have "quoteChars (c # d # cs) = quoteCodeUnit c @ quoteChars (d # cs)" using False by auto
    then have "parseStringChars (quoteChars (c # d # cs) @ 0x22 # rest) acc
        = parseStringChars (quoteChars (d # cs) @ 0x22 # rest) (acc @ [c])"
      by (simp only: append_assoc parseStringChars_quoteCodeUnit)
    then show ?thesis using "3.IH"(2) [OF False, of "acc @ [c]"] by simp
  qed
qed

lemma parse_string_literal:
  "parseValue toNumber (Suc n) (quoteJSONString s @ rest) = Some (JString s, rest)"
  by (simp add: quoteJSONString_def parseStringChars_quoteChars)

lemma skipWs_startsValue: "startsValue t \<Longrightarrow> skipWs (t @ rest) = t @ rest"
  by (cases t) (auto simp: startsValue_def skipWs_def isJsonWhiteSpace_def)

lemma skipWs_punct [simp]:
  "skipWs (0x2C # s) = 0x2C # s" "skipWs (0x5D # s) = 0x5D # s"
  "skipWs (0x7D # s) = 0x7D # s" "skipWs (0x3A # s) = 0x3A # s"
  "skipWs (0x22 # s) = 0x22 # s"
  by (simp_all add: skipWs_def isJsonWhiteSpace_def)

lemma parseElements_back:
  assumes "\<forall>x \<in> set (x # xs). parsesBack toNumber numberText x"
      and "length (join (map elementText (map (JSON_stringify numberText) (x # xs))) [0x2C]) < n"
  shows "parseElements toNumber n
           (join (map elementText (map (JSON_stringify numberText) (x # xs))) [0x2C] @ 0x5D # rest) acc
         = Some (acc @ x # xs, rest)"
  using assms
proof (induction xs arbitrary: x acc n)
  case Nil
  then obtain t where t: "JSON_stringify numberText x = Some t"
    and pb: "\<forall>n rest. length t \<le> n \<longrightarrow> parseValue toNumber n (t @ rest) = Some (x, rest)"
    by (auto simp: parsesBack_def)
  from Nil.prems(2) t obtain m where n: "n = Suc m" and m: "length t \<le> m"
    by (cases n) (auto simp: elementText_def)
  have "parseValue toNumber m (t @ 0x5D # rest) = Some (x, 0x5D # rest)"
    using pb m by blast
  then show ?case using t n by (simp add: elementText_def)
next
  case (Cons y ys)
  then obtain t where t: "JSON_stringify numberText x = Some t"
    and pb: "\<forall>n rest. length t \<le> n \<longrightarrow> parseValue toNumber n (t @ rest) = Some (x, rest)"
    by (auto simp: parsesBack_def)
  let ?tail = "join (map elementText (map (JSON_stringify numberText) (y # ys))) [0x2C]"
  have whole: "join (map elementText (map (JSON_stringify numberText) (x # y # ys))) [0x2C]
      = t @ 0x2C # ?tail"
    using t by (simp add: elementText_def)
  from Cons.prems(2) obtain m where n: "n = Suc m" and m: "length t \<le> m" "length ?tail < m"
    unfolding whole by (cases n) auto
  from Cons.prems(1) obtain u where u: "JSON_stringify numberText y = Some u" "startsValue u"
    by (auto simp: parsesBack_def)
  have "startsValue ?tail"
    using u by (cases ys) (auto simp: elementText_def startsValue_def)
  then have ws: "skipWs (?tail @ 0x5D # rest) = ?tail @ 0x5D # rest"
    by (rule skipWs_startsValue)
  have first: "parseValue toNumber m (t @ 0x2C # ?tail @ 0x5D # rest)
      = Some (x, 0x2C # ?tail @ 0x5D # rest)"
    using pb m(1) by blast
  have rest: "parseElements toNumber m (?tail @ 0x5D # rest) (acc @ [x]) = Some ((acc @ [x]) @ y # ys, rest)"
    by (rule Cons.IH) (use Cons.prems(1) m(2) in auto)
  show ?case
    unfolding whole n using first rest ws by simp
qed


lemma defineProperty_new:
  "k \<notin> set (map fst acc) \<Longrightarrow> defineProperty k v acc = acc @ [(k, v)]"
  by (induction acc) auto

lemma parseMembers_back:
  assumes "\<forall>q \<in> set (p # ps). parsesBack toNumber numberText (snd q)"
      and "distinct (map fst (acc @ p # ps))"
      and "length (join (map (\<lambda>q. quoteJSONString (fst q) @ 0x3A #
                     elementText (JSON_stringify numberText (snd q))) (p # ps)) [0x2C]) < n"
  shows "parseMembers toNumber n
           (join (map (\<lambda>q. quoteJSONString (fst q) @ 0x3A #
                     elementText (JSON_stringify numberText (snd q))) (p # ps)) [0x2C]
            @ 0x7D # rest) acc
         = Some (acc @ p # ps, rest)"
  using assms
proof (induction ps arbitrary: p acc n)
  case Nil
  obtain k v where p: "p = (k, v)" by (cases p)
  from Nil.prems(1) p obtain t where t: "JSON_stringify numberText v = Some t"
    and sv: "startsValue t"
    and pb: "\<forall>n rest. length t \<le> n \<longrightarrow> parseValue toNumber n (t @ rest) = Some (v, rest)"
    by (auto simp: parsesBack_def)
  from Nil.prems(3) p t obtain m where n: "n = Suc m" and m: "length t \<le> m"
    by (cases n) (auto simp: elementText_def quoteJSONString_def)
  have key: "parseStringChars (quoteChars k @ 0x22 # 0x3A # t @ 0x7D # rest) []
      = Some (k, 0x3A # t @ 0x7D # rest)"
    using parseStringChars_quoteChars [of k "0x3A # t @ 0x7D # rest" "[]"] by simp
  have ws: "skipWs (t @ 0x7D # rest) = t @ 0x7D # rest"
    using sv by (rule skipWs_startsValue)
  have val: "parseValue toNumber m (t @ 0x7D # rest) = Some (v, 0x7D # rest)"
    using pb m by blast
  have new: "defineProperty k v acc = acc @ [(k, v)]"
    using Nil.prems(2) p by (simp add: defineProperty_new)
  show ?case
    using key ws val new by (simp add: p t n elementText_def quoteJSONString_def)
next
  case (Cons q qs)
  obtain k v where p: "p = (k, v)" by (cases p)
  from Cons.prems(1) p obtain t where t: "JSON_stringify numberText v = Some t"
    and sv: "startsValue t"
    and pb: "\<forall>n rest. length t \<le> n \<longrightarrow> parseValue toNumber n (t @ rest) = Some (v, rest)"
    by (auto simp: parsesBack_def)
  let ?tail = "join (map (\<lambda>q. quoteJSONString (fst q) @ 0x3A #
                     elementText (JSON_stringify numberText (snd q))) (q # qs)) [0x2C]"
  have whole: "join (map (\<lambda>q. quoteJSONString (fst q) @ 0x3A #
                     elementText (JSON_stringify numberText (snd q))) (p # q # qs)) [0x2C]
      = (0x22 # quoteChars k @ 0x22 # 0x3A # t) @ 0x2C # ?tail"
    using t p by (simp add: elementText_def quoteJSONString_def)
  from Cons.prems(3) obtain m where n: "n = Suc m" and m: "length t \<le> m" "length ?tail < m"
    unfolding whole by (cases n) auto
  have tail: "\<exists>cs. ?tail = 0x22 # cs"
    by (cases qs) (simp_all add: quoteJSONString_def)
  then have ws2: "skipWs (?tail @ 0x7D # rest) = ?tail @ 0x7D # rest"
    by auto
  have key: "parseStringChars (quoteChars k @ 0x22 # 0x3A # t @ 0x2C # ?tail @ 0x7D # rest) []
      = Some (k, 0x3A # t @ 0x2C # ?tail @ 0x7D # rest)"
    using parseStringChars_quoteChars [of k "0x3A # t @ 0x2C # ?tail @ 0x7D # rest" "[]"] by simp
  have ws: "skipWs (t @ 0x2C # ?tail @ 0x7D # rest) = t @ 0x2C # ?tail @ 0x7D # rest"
    using sv by (rule skipWs_startsValue)
  have val: "parseValue toNumber m (t @ 0x2C # ?tail @ 0x7D # rest)
      = Some (v, 0x2C # ?tail @ 0x7D # rest)"
    using pb m(1) by blast
  have new: "defineProperty k v acc = acc @ [(k, v)]"
    using Cons.prems(2) p by (simp add: defineProperty_new)
  have rest: "parseMembers toNumber m (?tail @ 0x7D # rest) (acc @ [p])
      = Some ((acc @ [p]) @ q # qs, rest)"
    by (rule Cons.IH) (use Cons.prems(1,2) m(2) in auto)
  show ?case
    unfolding whole n using key ws val new rest ws2 by (simp add: p)
qed

lemma propertyOrder_plain:
  "\<forall>p \<in> set ps. \<not> isArrayIndex (fst p) \<Longrightarrow> propertyOrder ps = ps"
  by (simp add: propertyOrder_def filter_empty_conv)

lemma members_plain:
  assumes "\<forall>p \<in> set ps. \<not> isArrayIndex (fst p)"
      and "\<forall>p \<in> set ps. JSON_stringify numberText (snd p) \<noteq> None"
  shows "List.map_filter memberText
           (propertyOrder (map (map_prod id (JSON_stringify numberText)) ps))
       = map (\<lambda>q. quoteJSONString (fst q) @ 0x3A #
                 elementText (JSON_stringify numberText (snd q))) ps"
proof -
  have "propertyOrder (map (map_prod id (JSON_stringify numberText)) ps)
      = map (map_prod id (JSON_stringify numberText)) ps"
    by (rule propertyOrder_plain) (use assms(1) in auto)
  moreover have "List.map_filter memberText (map (map_prod id (JSON_stringify numberText)) ps)
      = map (\<lambda>q. quoteJSONString (fst q) @ 0x3A #
                 elementText (JSON_stringify numberText (snd q))) ps"
    using assms(2)
    by (induction ps) (auto simp: List.map_filter_simps memberText_def elementText_def)
  ultimately show ?thesis by simp
qed

lemma plainJSON_parsesBack: "plainJSON v \<Longrightarrow> parsesBack toNumber numberText v"
proof (induction v)
  case JUndefined
  then show ?case by simp
next
  case JNull
  have "parseValue toNumber n (js ''null'' @ rest) = Some (JNull, rest)"
    if "length (js ''null'') \<le> n" for n rest
    using that by (cases n) (simp_all add: js_def startsWith_def)
  then show ?case
    by (simp add: parsesBack_def startsValue_def) (simp add: js_def)
next
  case (JBool b)
  have t: "parseValue toNumber n (js ''true'' @ rest) = Some (JBool True, rest)"
    if "length (js ''true'') \<le> n" for n rest
    using that by (cases n) (simp_all add: js_def startsWith_def)
  have f: "parseValue toNumber n (js ''false'' @ rest) = Some (JBool False, rest)"
    if "length (js ''false'') \<le> n" for n rest
    using that by (cases n) (simp_all add: js_def startsWith_def)
  show ?case
  proof (cases b)
    case True
    with t show ?thesis by (simp add: parsesBack_def startsValue_def) (simp add: js_def)
  next
    case False
    with f show ?thesis by (simp add: parsesBack_def startsValue_def) (simp add: js_def)
  qed
next
  case (JNumber x)
  then show ?case by simp
next
  case (JString s)
  have "parseValue toNumber n (quoteJSONString s @ rest) = Some (JString s, rest)"
    if "length (quoteJSONString s) \<le> n" for n rest
  proof (cases n)
    case 0
    with that show ?thesis by (simp add: quoteJSONString_def)
  next
    case (Suc m)
    show ?thesis unfolding Suc by (rule parse_string_literal)
  qed
  then show ?case
    by (simp add: parsesBack_def startsValue_def) (simp add: quoteJSONString_def)
next
  case (JArray xs)
  then have elems: "\<forall>x \<in> set xs. parsesBack toNumber numberText x"
    by (simp add: list_all_iff)
  define body where "body = join (map elementText (map (JSON_stringify numberText) xs)) [0x2C]"
  have ser: "JSON_stringify numberText (JArray xs) = Some (0x5B # body @ [0x5D])"
    by (simp add: body_def)
  have "parseValue toNumber n ((0x5B # body @ [0x5D]) @ rest) = Some (JArray xs, rest)"
    if len: "length (0x5B # body @ [0x5D]) \<le> n" for n rest
  proof -
    from len obtain m where n: "n = Suc m" and m: "length body < m"
      by (cases n) auto
    show ?thesis
    proof (cases xs)
      case Nil
      then have "body = []" by (simp add: body_def)
      then show ?thesis by (simp add: n Nil)
    next
      case (Cons y ys)
      then obtain u where u: "JSON_stringify numberText y = Some u" "startsValue u"
        using elems by (auto simp: parsesBack_def)
      have sv: "startsValue body"
        unfolding body_def Cons using u by (cases ys) (auto simp: elementText_def startsValue_def)
      then obtain d ds where body: "body = d # ds" and d: "d \<noteq> 0x5D"
        by (cases body) (auto simp: startsValue_def)
      have ws: "skipWs (body @ 0x5D # rest) = body @ 0x5D # rest"
        using sv by (rule skipWs_startsValue)
      have pe: "parseElements toNumber m (body @ 0x5D # rest) [] = Some ([] @ y # ys, rest)"
        unfolding body_def Cons by (rule parseElements_back) (use elems m Cons in \<open>auto simp: body_def\<close>)
      have "parseValue toNumber (Suc m) (0x5B # d # ds @ 0x5D # rest) = Some (JArray xs, rest)"
        using ws pe d unfolding body by (simp add: Cons)
      then show ?thesis by (simp add: n body)
    qed
  qed
  moreover have "startsValue (0x5B # body @ [0x5D])" by (simp add: startsValue_def)
  ultimately show ?case unfolding parsesBack_def ser by blast
next
  case (JObject ps)
  from JObject.prems have dist: "distinct (map fst ps)"
    and noidx: "\<forall>p \<in> set ps. \<not> isArrayIndex (fst p)"
    and plain: "\<forall>p \<in> set ps. plainJSON (snd p)"
    by (auto simp: list_all_iff)
  have vals: "\<forall>p \<in> set ps. parsesBack toNumber numberText (snd p)"
  proof
    fix p assume p: "p \<in> set ps"
    obtain k v where kv: "p = (k, v)" by (cases p)
    have "parsesBack toNumber numberText v"
      by (rule JObject.IH [of p v]) (use p kv plain in auto)
    then show "parsesBack toNumber numberText (snd p)" by (simp add: kv)
  qed
  then have some: "\<forall>p \<in> set ps. JSON_stringify numberText (snd p) \<noteq> None"
    by (auto simp: parsesBack_def)
  define body where "body = join (map (\<lambda>q. quoteJSONString (fst q) @ 0x3A #
                     elementText (JSON_stringify numberText (snd q))) ps) [0x2C]"
  have ser: "JSON_stringify numberText (JObject ps) = Some (0x7B # body @ [0x7D])"
    by (simp add: members_plain [OF noidx some] body_def)
  have "parseValue toNumber n ((0x7B # body @ [0x7D]) @ rest) = Some (JObject ps, rest)"
    if len: "length (0x7B # body @ [0x7D]) \<le> n" for n rest
  proof -
    from len obtain m where n: "n = Suc m" and m: "length body < m"
      by (cases n) auto
    show ?thesis
    proof (cases ps)
      case Nil
      then have "body = []" by (simp add: body_def)
      then show ?thesis by (simp add: n Nil)
    next
      case (Cons q qs)
      have "\<exists>cs. body = 0x22 # cs"
        unfolding body_def Cons by (cases qs) (simp_all add: quoteJSONString_def)
      then obtain cs where body: "body = 0x22 # cs" by blast
      have pm: "parseMembers toNumber m (body @ 0x7D # rest) [] = Some ([] @ q # qs, rest)"
        unfolding body_def Cons
        by (rule parseMembers_back) (use vals dist m Cons in \<open>auto simp: body_def\<close>)
      have "parseValue toNumber (Suc m) (0x7B # 0x22 # cs @ 0x7D # rest) = Some (JObject ps, rest)"
        using pm unfolding body by (simp add: Cons)
      then show ?thesis by (simp add: n body)
    qed
  qed
  moreover have "startsValue (0x7B # body @ [0x7D])" by (simp add: startsValue_def)
  ultimately show ?case unfolding parsesBack_def ser by blast
qed

lemma JSON_round_trip:
  assumes "plainJSON v"
  shows "\<exists>t. JSON_stringify numberText v = Some t \<and> t \<noteq> [] \<and> JSON_parse toNumber t = Return v"
proof -
  from plainJSON_parsesBack [OF assms, of toNumber numberText]
  obtain t where t: "JSON_stringify numberText v = Some t" and sv: "startsValue t"
    and pb: "\<forall>n rest. length t \<le> n \<longrightarrow> parseValue toNumber n (t @ rest) = Some (v, rest)"
    by (auto simp: parsesBack_def)
  have ws: "skipWs t = t" using skipWs_startsValue [OF sv, of "[]"] by simp
  have "length t \<le> 2 * length t + 2" by simp
  with pb have "parseValue toNumber (2 * length t + 2) (t @ []) = Some (v, [])"
    by blast
  then have pv: "parseValue toNumber (2 * length t + 2) (skipWs t) = Some (v, [])"
    by (simp only: ws append_Nil2)
  have "JSON_parse toNumber t = Return v"
    by (simp only: JSON_parse_def pv option.case prod.case) (simp add: skipWs_def)
  with t sv show ?thesis by (auto simp: startsValue_def)
qed

lemma plainJSON_object:
  assumes "distinct (map fst ps)"
      and "\<And>k x. map_of ps k = Some x \<Longrightarrow> \<not> isArrayIndex k \<and> plainJSON x"
  shows "plainJSON (JObject ps)"
proof -
  have "\<not> isArrayIndex (fst p) \<and> plainJSON (snd p)" if "p \<in> set ps" for p
  proof -
    have "map_of ps (fst p) = Some (snd p)"
      using assms(1) that by simp
    then show ?thesis by (rule assms(2))
  qed
  then show ?thesis using assms(1) by (simp add: list_all_iff)
qed

lemma hasString_plain: "hasString ps k \<Longrightarrow> map_of ps k = Some x \<Longrightarrow> plainJSON x"
  by (auto simp: hasString_def split: jsvalue.splits)

lemma key_in_set: "map_of ps k = Some x \<Longrightarrow> k \<in> set (map fst ps)"
  by (metis domI dom_map_of_conv_image_fst set_map)

lemma names_not_indices:
  "\<not> isArrayIndex (js ''role'')" "\<not> isArrayIndex (js ''content'')"
  "\<not> isArrayIndex (js ''tool_calls'')" "\<not> isArrayIndex (js ''tool_call_id'')"
  "\<not> isArrayIndex (js ''id'')" "\<not> isArrayIndex (js ''type'')"
  "\<not> isArrayIndex (js ''function'')" "\<not> isArrayIndex (js ''name'')"
  "\<not> isArrayIndex (js ''arguments'')"
  by (simp_all add: isArrayIndex_def isDigit_def js_def)

lemma function_object_plain:
  assumes "distinct (map fst qs)" and "set (map fst qs) = {js ''name'', js ''arguments''}"
      and "hasString qs (js ''name'')" and "hasString qs (js ''arguments'')"
  shows "plainJSON (JObject qs)"
proof (rule plainJSON_object [OF assms(1)])
  fix k x assume kx: "map_of qs k = Some x"
  then have "k = js ''name'' \<or> k = js ''arguments''"
    using key_in_set [OF kx] assms(2) by auto
  then show "\<not> isArrayIndex k \<and> plainJSON x"
    using kx assms(3,4) names_not_indices by (auto dest: hasString_plain)
qed

lemma isToolCall_plain: "isToolCall v \<Longrightarrow> plainJSON v"
proof -
  assume tc: "isToolCall v"
  then obtain ps where v: "v = JObject ps"
    by (cases v) (simp_all add: isToolCall_def)
  from tc v have dist: "distinct (map fst ps)"
    and keys: "set (map fst ps) = {js ''id'', js ''type'', js ''function''}"
    and i: "hasString ps (js ''id'')"
    and t: "map_of ps (js ''type'') = Some (JString (js ''function''))"
    by (simp_all add: isToolCall_def)
  from tc v obtain qs where f: "map_of ps (js ''function'') = Some (JObject qs)"
    and fq: "distinct (map fst qs)" "set (map fst qs) = {js ''name'', js ''arguments''}"
      "hasString qs (js ''name'')" "hasString qs (js ''arguments'')"
    by (auto simp: isToolCall_def split: option.splits jsvalue.splits)
  have "plainJSON (JObject ps)"
  proof (rule plainJSON_object [OF dist])
    fix k x assume kx: "map_of ps k = Some x"
    then have "k = js ''id'' \<or> k = js ''type'' \<or> k = js ''function''"
      using key_in_set [OF kx] keys by auto
    then show "\<not> isArrayIndex k \<and> plainJSON x"
      using kx i t f function_object_plain [OF fq] names_not_indices
      by (auto dest: hasString_plain)
  qed
  then show ?thesis by (simp add: v)
qed

lemma isChatMessage_plain: "isChatMessage v \<Longrightarrow> plainJSON v"
proof -
  assume cm: "isChatMessage v"
  then obtain ps where v: "v = JObject ps"
    by (cases v) (simp_all add: isChatMessage_def)
  from cm v have dist: "distinct (map fst ps)"
    and keys: "set (map fst ps) \<subseteq> {js ''role'', js ''content'', js ''tool_calls'', js ''tool_call_id''}"
    and r: "case map_of ps (js ''role'') of
             Some (JString r) \<Rightarrow> r \<in> {js ''user'', js ''assistant'', js ''system'', js ''tool''}
           | _ \<Rightarrow> False"
    and c: "case map_of ps (js ''content'') of
             Some JNull \<Rightarrow> True | Some (JString c) \<Rightarrow> True | _ \<Rightarrow> False"
    and tcs: "case map_of ps (js ''tool_calls'') of
             None \<Rightarrow> True | Some (JArray tcs) \<Rightarrow> list_all isToolCall tcs | _ \<Rightarrow> False"
    and i: "case map_of ps (js ''tool_call_id'') of
             None \<Rightarrow> True | Some (JString i) \<Rightarrow> True | _ \<Rightarrow> False"
    by (simp_all add: isChatMessage_def)
  have "plainJSON (JObject ps)"
  proof (rule plainJSON_object [OF dist])
    fix k x assume kx: "map_of ps k = Some x"
    then consider "k = js ''role''" | "k = js ''content''" | "k = js ''tool_calls''"
      | "k = js ''tool_call_id''"
      using key_in_set [OF kx] keys by auto
    then show "\<not> isArrayIndex k \<and> plainJSON x"
    proof cases
      case 1
      with kx r show ?thesis using names_not_indices by (auto split: jsvalue.splits)
    next
      case 2
      with kx c show ?thesis using names_not_indices by (auto split: jsvalue.splits)
    next
      case 3
      with kx tcs show ?thesis using names_not_indices
        by (auto split: jsvalue.splits simp: list_all_iff dest: isToolCall_plain)
    next
      case 4
      with kx i show ?thesis using names_not_indices by (auto split: jsvalue.splits)
    qed
  qed
  then show ?thesis by (simp add: v)
qed


text \<open>
  C5. \<open>saveChatHistory\<close> followed by \<open>loadChatHistory\<close> for the same voice name
  returns the history that was saved, for every history of message objects, every voice
  name and whatever the storage held before.
\<close>

theorem save_then_load:
  assumes "\<forall>m \<in> set h. isChatMessage m"
  shows "loadChatHistory (JSON_parse toNumber) v
           (saveChatHistory (JSON_stringify numberText) h v st) = Return h"
proof -
  have "plainJSON (JArray h)"
    using assms by (simp add: list_all_iff isChatMessage_plain)
  from JSON_round_trip [OF this, of numberText toNumber]
  obtain t where t: "JSON_stringify numberText (JArray h) = Some t" "t \<noteq> []"
      "JSON_parse toNumber t = Return (JArray h)"
    by blast
  then show ?thesis
    by (simp add: loadChatHistory_def saveChatHistory_def getItem_setItem storedString_def
          isArray_def elements_def)
qed

text \<open>
  In the example the tool Turn has its properties in the order in which the component
  creates them: \<open>role\<close>, \<open>tool_call_id\<close>, \<open>content\<close>.
\<close>

theorem save_then_load_witness:
  "\<forall>toNumber numberText.
     loadChatHistory (JSON_parse toNumber) (js ''Watercooler'')
       (saveChatHistory (JSON_stringify numberText)
          [JObject [(js ''role'', JString (js ''user'')), (js ''content'', JString (js ''hi''))],
           JObject [(js ''role'', JString (js ''assistant'')), (js ''content'', JNull),
                    (js ''tool_calls'',
                       JArray [JObject [(js ''id'', JString (js ''call_1'')),
                                        (js ''type'', JString (js ''function'')),
                                        (js ''function'',
                                           JObject [(js ''name'', JString (js ''get_news'')),
                                                    (js ''arguments'', JString (js ''{}''))])]])],
           JObject [(js ''role'', JString (js ''tool'')),
                    (js ''tool_call_id'', JString (js ''call_1'')),
                    (js ''content'', JString (js ''[]''))]]
          (js ''Watercooler'') [])
     = Return
         [JObject [(js ''role'', JString (js ''user'')), (js ''content'', JString (js ''hi''))],
          JObject [(js ''role'', JString (js ''assistant'')), (js ''content'', JNull),
                   (js ''tool_calls'',
                      JArray [JObject [(js ''id'', JString (js ''call_1'')),
                                       (js ''type'', JString (js ''function'')),
                                       (js ''function'',
                                          JObject [(js ''name'', JString (js ''get_news'')),
                                                   (js ''arguments'', JString (js ''{}''))])]])],
          JObject [(js ''role'', JString (js ''tool'')),
                   (js ''tool_call_id'', JString (js ''call_1'')),
                   (js ''content'', JString (js ''[]''))]]"
proof (intro allI)
  fix toNumber numberText
  let ?h = "[JObject [(js ''role'', JString (js ''user'')), (js ''content'', JString (js ''hi''))],
           JObject [(js ''role'', JString (js ''assistant'')), (js ''content'', JNull),
                    (js ''tool_calls'',
                       JArray [JObject [(js ''id'', JString (js ''call_1'')),
                                        (js ''type'', JString (js ''function'')),
                                        (js ''function'',
                                           JObject [(js ''name'', JString (js ''get_news'')),
                                                    (js ''arguments'', JString (js ''{}''))])]])],
           JObject [(js ''role'', JString (js ''tool'')),
                    (js ''tool_call_id'', JString (js ''call_1'')),
                    (js ''content'', JString (js ''[]''))]]"
  have tc: "isToolCall (JObject [(js ''id'', JString (js ''call_1'')),
                                        (js ''type'', JString (js ''function'')),
                                        (js ''function'',
                                           JObject [(js ''name'', JString (js ''get_news'')),
                                                    (js ''arguments'', JString (js ''{}''))])])"
    by (simp add: isToolCall_def hasString_def js_def)
  have "\<forall>m \<in> set ?h. isChatMessage m"
    using tc by (simp add: isChatMessage_def) (simp add: js_def)
  then show "loadChatHistory (JSON_parse toNumber) (js ''Watercooler'')
       (saveChatHistory (JSON_stringify numberText) ?h (js ''Watercooler'') []) = Return ?h"
    by (rule save_then_load)
qed

text \<open>
  C7. \<open>loadChatHistory\<close> never throws, and it returns the empty array when the key is
  absent, when \<open>JSON.parse\<close> throws on the stored text, and when the parsed value is
  not an array.
\<close>

theorem load_never_throws:
  "(\<exists>xs. loadChatHistory parse v st = Return xs)
   \<and> ((getItem st (getStorageKey v) = None
        \<or> (\<exists>s. getItem st (getStorageKey v) = Some s
               \<and> ((\<exists>e. parse s = Throw e) \<or> (\<exists>j. parse s = Return j \<and> \<not> isArray j))))
       \<longrightarrow> loadChatHistory parse v st = Return [])"
proof -
  have "\<exists>xs. try_catch (bind (parse s)
                 (\<lambda>parsed. if isArray parsed then Return (elements parsed) else Return []))
                 (\<lambda>e. Return []) = Return xs" for s
    by (cases "parse s") auto
  then have "\<exists>xs. loadChatHistory parse v st = Return xs"
    by (simp add: loadChatHistory_def split: option.splits)
  moreover have "getItem st (getStorageKey v) = None \<Longrightarrow> loadChatHistory parse v st = Return []"
    by (simp add: loadChatHistory_def)
  moreover have "getItem st (getStorageKey v) = Some s \<Longrightarrow> parse s = Throw e \<Longrightarrow>
       loadChatHistory parse v st = Return []" for s e
    by (simp add: loadChatHistory_def)
  moreover have "getItem st (getStorageKey v) = Some s \<Longrightarrow> parse s = Return j \<Longrightarrow> \<not> isArray j \<Longrightarrow>
       loadChatHistory parse v st = Return []" for s j
    by (simp add: loadChatHistory_def)
  ultimately show ?thesis by blast
qed


theorem load_never_throws_witness:
  \<open>loadChatHistory
      (\<lambda>t. if t = js ''{}'' then Return (JObject []) else Throw (JsError (js ''Unexpected token'')))
      (js ''Watercooler'') [] = Return []
   \<and> loadChatHistory
      (\<lambda>t. if t = js ''{}'' then Return (JObject []) else Throw (JsError (js ''Unexpected token'')))
      (js ''Watercooler'') [(js ''chatHistory_Watercooler'', js ''[{'')] = Return []
   \<and> loadChatHistory
      (\<lambda>t. if t = js ''{}'' then Return (JObject []) else Throw (JsError (js ''Unexpected token'')))
      (js ''Watercooler'') [(js ''chatHistory_Watercooler'', js ''{}'')] = Return []\<close>
  using load_never_throws
     [of \<open>\<lambda>t. if t = js ''{}'' then Return (JObject []) else Throw (JsError (js ''Unexpected token''))\<close>
         \<open>js ''Watercooler''\<close> \<open>[]\<close>]
    load_never_throws
     [of \<open>\<lambda>t. if t = js ''{}'' then Return (JObject []) else Throw (JsError (js ''Unexpected token''))\<close>
         \<open>js ''Watercooler''\<close> \<open>[(js ''chatHistory_Watercooler'', js ''[{'')]\<close>]
    load_never_throws
     [of \<open>\<lambda>t. if t = js ''{}'' then Return (JObject []) else Throw (JsError (js ''Unexpected token''))\<close>
         \<open>js ''Watercooler''\<close> \<open>[(js ''chatHistory_Watercooler'', js ''{}'')]\<close>]
  by (simp add: getItem_def getStorageKey_def isArray_def js_def)

lemma sorted_le_last: "sorted xs \<Longrightarrow> x \<in> set xs \<Longrightarrow> x \<le> last xs"
  by (induction xs) auto

lemma newest_first:
  fixes ts :: jsstring
  assumes "ts \<in> set xs" and "\<forall>x \<in> set xs. x \<le> ts"
  shows "\<exists>older. rev (sort xs) = ts # older"
proof -
  have ne: "sort xs \<noteq> []" using assms(1) by (metis empty_iff empty_set set_sort)
  have "last (sort xs) \<in> set xs" using last_in_set [OF ne] by simp
  then have "last (sort xs) \<le> ts" using assms(2) by blast
  moreover have "ts \<le> last (sort xs)"
    by (rule sorted_le_last) (use assms(1) in simp_all)
  ultimately have "last (sort xs) = ts" by simp
  then have "hd (rev (sort xs)) = ts" by (simp add: hd_rev)
  moreover have "rev (sort xs) \<noteq> []" using ne by simp
  ultimately show ?thesis by (cases "rev (sort xs)") auto
qed

lemma memoryKeyPrefix_nonempty: "memoryKeyPrefix v \<noteq> []"
  by (simp add: memoryKeyPrefix_def js_def)

lemma replace_prefix: "startsWith key p \<Longrightarrow> replace key p [] = drop (length p) key"
  by (cases key) (auto simp: startsWith_def)

lemma startsWith_memoryKey: "startsWith (memoryKey v t) (memoryKeyPrefix v)"
  by (simp add: startsWith_def memoryKey_def)

lemma memoryKey_drop:
  "startsWith key (memoryKeyPrefix v) \<Longrightarrow> memoryKey v (drop (length (memoryKeyPrefix v)) key) = key"
  unfolding startsWith_def memoryKey_def
  by (metis append_take_drop_id)

lemma set_getMemoryList:
  "set (getMemoryList v st) = {t. memoryKey v t \<in> set (storage_keys st)}"
proof (intro set_eqI iffI)
  fix t assume "t \<in> set (getMemoryList v st)"
  then obtain key where key: "key \<in> set (storage_keys st)" "startsWith key (memoryKeyPrefix v)"
    and t: "t = replace key (memoryKeyPrefix v) []"
    by (auto simp: getMemoryList_def)
  then have "memoryKey v t = key" by (simp add: replace_prefix memoryKey_drop)
  with key show "t \<in> {t. memoryKey v t \<in> set (storage_keys st)}" by simp
next
  fix t assume "t \<in> {t. memoryKey v t \<in> set (storage_keys st)}"
  then have k: "memoryKey v t \<in> set (storage_keys st)" by simp
  have ne: "memoryKey v t \<noteq> []" using memoryKeyPrefix_nonempty by (simp add: memoryKey_def)
  have "replace (memoryKey v t) (memoryKeyPrefix v) [] = t"
    by (simp add: replace_prefix startsWith_memoryKey) (simp add: memoryKey_def)
  then show "t \<in> set (getMemoryList v st)"
    using k ne startsWith_memoryKey [of v t]
    by (force simp: getMemoryList_def)
qed

lemma live_key_not_listed: "\<not> startsWith (getStorageKey v) (memoryKeyPrefix v)"
  by (simp add: startsWith_def getStorageKey_def memoryKeyPrefix_def js_def)

lemma live_key_not_memoryKey: "memoryKey v t \<noteq> getStorageKey v"
  by (simp add: memoryKey_def getStorageKey_def memoryKeyPrefix_def js_def)

lemma getMemoryList_setItem_live:
  "getMemoryList v (setItem (getStorageKey v) s st) = getMemoryList v st"
  by (simp add: getMemoryList_def storage_keys_setItem live_key_not_listed)

lemma getItem_Some_key: "getItem st k = Some c \<Longrightarrow> k \<in> set (storage_keys st)"
  by (auto simp: getItem_def storage_keys_def dest: map_of_SomeD intro: rev_image_eqI)

lemma key_getItem: "k \<in> set (storage_keys st) \<Longrightarrow> getItem st k \<noteq> None"
  by (simp add: getItem_def storage_keys_def map_of_eq_None_iff)


text \<open>
  C6, as the code has it. Let a non-empty live history be stored for the voice. After
  \<open>saveMemory\<close> the list holds the new timestamp, and it starts with the new
  timestamp when no timestamp listed before is above it. In any later storage whose slot
  for that timestamp still holds what was captured, \<open>loadMemory\<close> followed by
  \<open>loadChatHistory\<close> returns what \<open>loadChatHistory\<close> returned when the snapshot
  was taken; every key other than the live key of the voice keeps its value, and the list
  of snapshots is the same.
\<close>

theorem snapshot_list_restore:
  assumes live: "getItem st (getStorageKey v) = Some cur" and ne: "cur \<noteq> []"
      and kept: "getItem st' (memoryKey v ts) = getItem (saveMemory v ts st) (memoryKey v ts)"
  shows "ts \<in> set (getMemoryList v (saveMemory v ts st))
       \<and> ((\<forall>t \<in> set (getMemoryList v st). t \<le> ts) \<longrightarrow>
            (\<exists>older. getMemoryList v (saveMemory v ts st) = ts # older))
       \<and> loadChatHistory parse v (loadMemory v ts st') = loadChatHistory parse v st
       \<and> (\<forall>k. k \<noteq> getStorageKey v \<longrightarrow> getItem (loadMemory v ts st') k = getItem st' k)
       \<and> getMemoryList v (loadMemory v ts st') = getMemoryList v st'"
proof -
  have saved: "saveMemory v ts st = setItem (memoryKey v ts) cur st"
    using live ne by (simp add: saveMemory_def)
  have listed: "set (getMemoryList v (saveMemory v ts st)) = insert ts (set (getMemoryList v st))"
    by (auto simp: saved set_getMemoryList storage_keys_setItem memoryKey_def)
  have first: "\<exists>older. getMemoryList v (saveMemory v ts st) = ts # older"
    if newest: "\<forall>t \<in> set (getMemoryList v st). t \<le> ts"
  proof -
    let ?xs = "map (\<lambda>key. replace key (memoryKeyPrefix v) [])
                 (filter (\<lambda>key. key \<noteq> [] \<and> startsWith key (memoryKeyPrefix v))
                    (storage_keys (saveMemory v ts st)))"
    have "set ?xs = insert ts (set (getMemoryList v st))"
      using listed by (simp add: getMemoryList_def)
    then have "\<exists>older. rev (sort ?xs) = ts # older"
      by (intro newest_first) (use newest in auto)
    then show ?thesis by (simp add: getMemoryList_def)
  qed
  have slot: "getItem st' (memoryKey v ts) = Some cur"
    using kept by (simp add: saved getItem_setItem)
  then have restored: "loadMemory v ts st' = setItem (getStorageKey v) cur st'"
    using ne by (simp add: loadMemory_def)
  have "loadChatHistory parse v (loadMemory v ts st') = loadChatHistory parse v st"
    using live by (simp add: restored loadChatHistory_def getItem_setItem)
  moreover have "\<forall>k. k \<noteq> getStorageKey v \<longrightarrow> getItem (loadMemory v ts st') k = getItem st' k"
    by (simp add: restored getItem_setItem)
  moreover have "getMemoryList v (loadMemory v ts st') = getMemoryList v st'"
    by (simp add: restored getMemoryList_setItem_live)
  moreover have "ts \<in> set (getMemoryList v (saveMemory v ts st))"
    using listed by simp
  ultimately show ?thesis using first by blast
qed

text \<open>
  In the example the live history is \<open>["a"]\<close> when the snapshot is taken and
  \<open>["b"]\<close> when it is restored, and an older snapshot holds \<open>["c"]\<close>.
\<close>

theorem snapshot_list_restore_witness:
  \<open>getMemoryList (js ''v'')
     (saveMemory (js ''v'') (js ''2025-06-01T00:00:00.000Z'')
        [(js ''chatHistory_v'', js ''["a"]''),
         (js ''chatHistory_v_memory_2025-01-01T00:00:00.000Z'', js ''["c"]'')])
     = [js ''2025-06-01T00:00:00.000Z'', js ''2025-01-01T00:00:00.000Z'']
   \<and> loadChatHistory
       (\<lambda>t. if t = js ''["a"]'' then Return (JArray [JString (js ''a'')])
            else if t = js ''["b"]'' then Return (JArray [JString (js ''b'')])
            else if t = js ''["c"]'' then Return (JArray [JString (js ''c'')])
            else Throw (JsError (js ''Unexpected token'')))
       (js ''v'')
       (loadMemory (js ''v'') (js ''2025-06-01T00:00:00.000Z'')
          [(js ''chatHistory_v'', js ''["b"]''),
           (js ''chatHistory_v_memory_2025-01-01T00:00:00.000Z'', js ''["c"]''),
           (js ''chatHistory_v_memory_2025-06-01T00:00:00.000Z'', js ''["a"]'')])
     = Return [JString (js ''a'')]\<close>
proof -
  let ?st = \<open>[(js ''chatHistory_v'', js ''["a"]''),
         (js ''chatHistory_v_memory_2025-01-01T00:00:00.000Z'', js ''["c"]'')]\<close>
  let ?st' = \<open>[(js ''chatHistory_v'', js ''["b"]''),
           (js ''chatHistory_v_memory_2025-01-01T00:00:00.000Z'', js ''["c"]''),
           (js ''chatHistory_v_memory_2025-06-01T00:00:00.000Z'', js ''["a"]'')]\<close>
  let ?parse = \<open>\<lambda>t. if t = js ''["a"]'' then Return (JArray [JString (js ''a'')])
            else if t = js ''["b"]'' then Return (JArray [JString (js ''b'')])
            else if t = js ''["c"]'' then Return (JArray [JString (js ''c'')])
            else Throw (JsError (js ''Unexpected token''))\<close>
  have live: \<open>getItem ?st (getStorageKey (js ''v'')) = Some (js ''["a"]'')\<close>
    by (simp add: getItem_def getStorageKey_def js_def)
  have ne: \<open>js ''["a"]'' \<noteq> []\<close> by (simp add: js_def)
  have old: "getMemoryList (js ''v'') ?st = [js ''2025-01-01T00:00:00.000Z'']"
    by (simp add: getMemoryList_def storage_keys_def memoryKeyPrefix_def startsWith_def js_def)
  have newest: "\<forall>t \<in> set (getMemoryList (js ''v'') ?st). t \<le> js ''2025-06-01T00:00:00.000Z''"
    unfolding old by (simp add: js_def)
  have kept: "getItem ?st' (memoryKey (js ''v'') (js ''2025-06-01T00:00:00.000Z''))
        = getItem (saveMemory (js ''v'') (js ''2025-06-01T00:00:00.000Z'') ?st)
            (memoryKey (js ''v'') (js ''2025-06-01T00:00:00.000Z''))"
    by (simp add: saveMemory_def getItem_def getStorageKey_def memoryKey_def memoryKeyPrefix_def js_def)
  have new: "getMemoryList (js ''v'') (saveMemory (js ''v'') (js ''2025-06-01T00:00:00.000Z'') ?st)
     = [js ''2025-06-01T00:00:00.000Z'', js ''2025-01-01T00:00:00.000Z'']"
    by (simp add: saveMemory_def getItem_def getStorageKey_def memoryKey_def getMemoryList_def
          storage_keys_def memoryKeyPrefix_def startsWith_def js_def)
  have "loadChatHistory ?parse (js ''v'') ?st = Return [JString (js ''a'')]"
    by (simp add: loadChatHistory_def getItem_def getStorageKey_def isArray_def elements_def js_def)
  with snapshot_list_restore [OF live ne kept, of ?parse] newest new
  show ?thesis by simp
qed

text \<open>
  The first part of the claim as it is written fails when there is no live history, since
  nothing is stored then, and when a listed timestamp is above the new one.
\<close>

theorem snapshot_list_counterexample:
  "js ''2025-06-01T00:00:00.000Z''
     \<notin> set (getMemoryList (js ''v'') (saveMemory (js ''v'') (js ''2025-06-01T00:00:00.000Z'') []))
   \<and> getMemoryList (js ''v'')
       (saveMemory (js ''v'') (js ''2025-06-01T00:00:00.000Z'')
          [(js ''chatHistory_v'', js ''[]''),
           (js ''chatHistory_v_memory_2025-09-01T00:00:00.000Z'', js ''[]'')])
     = [js ''2025-09-01T00:00:00.000Z'', js ''2025-06-01T00:00:00.000Z'']"
  by (simp add: saveMemory_def getItem_def getStorageKey_def memoryKey_def getMemoryList_def
          storage_keys_def memoryKeyPrefix_def startsWith_def js_def)

section \<open>Properties of handleUploadMemories\<close>

lemma foldl_uploadOne:
  "successCount (foldl (uploadOne u v st) acc ks)
     = successCount acc + length [t \<leftarrow> ks. uploadAttempt u v st t = Some ResponseOk]
   \<and> errorCount (foldl (uploadOne u v st) acc ks)
     = errorCount acc + length [t \<leftarrow> ks. uploadAttempt u v st t \<notin> {None, Some ResponseOk}]
   \<and> attempted (foldl (uploadOne u v st) acc ks)
     = attempted acc @ [t \<leftarrow> ks. uploadAttempt u v st t \<noteq> None]"
proof (induction ks arbitrary: acc)
  case Nil
  show ?case by simp
next
  case (Cons t ks)
  show ?case
  proof (cases "uploadAttempt u v st t")
    case None
    then show ?thesis using Cons.IH [of acc] by (simp add: uploadOne_def)
  next
    case (Some outcome)
    then show ?thesis
      using Cons.IH [of "uploadOne u v st acc t"]
      by (cases outcome) (simp_all add: uploadOne_def)
  qed
qed

lemma attempts_split:
  "length [t \<leftarrow> ks. f t = Some ResponseOk] + length [t \<leftarrow> ks. f t \<notin> {None, Some ResponseOk}]
     = length [t \<leftarrow> ks. f t \<noteq> None]"
  by (induction ks) auto

lemma listed_has_item:
  "t \<in> set (getMemoryList v st) \<Longrightarrow> getItem st (memoryKey v t) \<noteq> None"
  by (simp add: set_getMemoryList key_getItem)

lemma uploadAttempt_None_iff:
  "t \<in> set (getMemoryList v st) \<Longrightarrow>
   uploadAttempt u v st t = None \<longleftrightarrow> getItem st (memoryKey v t) = Some []"
  using listed_has_item [of t v st]
  by (auto simp: uploadAttempt_def split: option.splits)


text \<open>
  C9, as the code has it. When the upload is confirmed and no snapshot is listed, the
  operation reports that there is nothing to upload, and no counts. When at least one
  snapshot is listed, every listed snapshot whose slot holds something is attempted, in
  the order of the list and whatever the outcome of the others; the summary counts the
  attempts that met an ok response as successes and all other attempts as errors. When
  these two counts add up to the number of listed snapshots, all of them were attempted.
\<close>

theorem upload_counts:
  "(getMemoryList v st = [] \<longrightarrow> handleUploadMemories True upload v st = NoLocalMemories)
   \<and> (getMemoryList v st \<noteq> [] \<longrightarrow>
        (\<exists>p. handleUploadMemories True upload v st = UploadComplete p
           \<and> attempted p = [t \<leftarrow> getMemoryList v st. getItem st (memoryKey v t) \<noteq> Some []]
           \<and> successCount p
               = length [t \<leftarrow> getMemoryList v st. uploadAttempt upload v st t = Some ResponseOk]
           \<and> errorCount p
               = length [t \<leftarrow> getMemoryList v st.
                           uploadAttempt upload v st t \<notin> {None, Some ResponseOk}]
           \<and> successCount p + errorCount p = length (attempted p)
           \<and> (successCount p + errorCount p = length (getMemoryList v st)
                \<longrightarrow> attempted p = getMemoryList v st)))"
proof (intro conjI impI)
  assume "getMemoryList v st = []"
  then show "handleUploadMemories True upload v st = NoLocalMemories"
    by (simp add: handleUploadMemories_def Let_def)
next
  assume listed: "getMemoryList v st \<noteq> []"
  let ?ks = "getMemoryList v st"
  let ?p = "foldl (uploadOne upload v st) \<lparr>successCount = 0, errorCount = 0, attempted = []\<rparr> ?ks"
  note p = foldl_uploadOne [of upload v st "\<lparr>successCount = 0, errorCount = 0, attempted = []\<rparr>" ?ks]
  have run: "handleUploadMemories True upload v st = UploadComplete ?p"
    using listed by (simp add: handleUploadMemories_def Let_def)
  have "[t \<leftarrow> ?ks. uploadAttempt upload v st t \<noteq> None]
      = [t \<leftarrow> ?ks. getItem st (memoryKey v t) \<noteq> Some []]"
    by (rule filter_cong) (simp_all add: uploadAttempt_None_iff)
  then have a: "attempted ?p = [t \<leftarrow> ?ks. getItem st (memoryKey v t) \<noteq> Some []]"
    using p by simp
  have s: "successCount ?p = length [t \<leftarrow> ?ks. uploadAttempt upload v st t = Some ResponseOk]"
    using p by simp
  have e: "errorCount ?p
      = length [t \<leftarrow> ?ks. uploadAttempt upload v st t \<notin> {None, Some ResponseOk}]"
    using p by simp
  have sum: "successCount ?p + errorCount ?p = length (attempted ?p)"
    using p attempts_split [of "uploadAttempt upload v st" ?ks] by simp
  have all: "successCount ?p + errorCount ?p = length ?ks \<longrightarrow> attempted ?p = ?ks"
  proof
    assume "successCount ?p + errorCount ?p = length ?ks"
    with sum have "length [t \<leftarrow> ?ks. getItem st (memoryKey v t) \<noteq> Some []] = length ?ks"
      by (simp add: a)
    then have "[t \<leftarrow> ?ks. getItem st (memoryKey v t) \<noteq> Some []] = ?ks"
      by (metis filter_True length_filter_less less_irrefl)
    then show "attempted ?p = ?ks" by (simp add: a)
  qed
  show "\<exists>p. handleUploadMemories True upload v st = UploadComplete p
           \<and> attempted p = [t \<leftarrow> getMemoryList v st. getItem st (memoryKey v t) \<noteq> Some []]
           \<and> successCount p
               = length [t \<leftarrow> getMemoryList v st. uploadAttempt upload v st t = Some ResponseOk]
           \<and> errorCount p
               = length [t \<leftarrow> getMemoryList v st.
                           uploadAttempt upload v st t \<notin> {None, Some ResponseOk}]
           \<and> successCount p + errorCount p = length (attempted p)
           \<and> (successCount p + errorCount p = length (getMemoryList v st)
                \<longrightarrow> attempted p = getMemoryList v st)"
    using run a s e sum all by blast
qed

theorem upload_counts_witness:
  "handleUploadMemories True
     (\<lambda>filename body. if filename = js ''2025-01-02.json'' then FetchThrew else ResponseOk)
     (js ''v'')
     [(js ''chatHistory_v'', js ''[]''),
      (js ''chatHistory_v_memory_2025-01-01'', js ''[1]''),
      (js ''chatHistory_v_memory_2025-01-02'', js ''[2]''),
      (js ''chatHistory_v_memory_2025-01-03'', js ''[3]'')]
   = UploadComplete
       \<lparr>successCount = 2, errorCount = 1,
        attempted = [js ''2025-01-03'', js ''2025-01-02'', js ''2025-01-01'']\<rparr>"
proof -
  let ?st = "[(js ''chatHistory_v'', js ''[]''),
      (js ''chatHistory_v_memory_2025-01-01'', js ''[1]''),
      (js ''chatHistory_v_memory_2025-01-02'', js ''[2]''),
      (js ''chatHistory_v_memory_2025-01-03'', js ''[3]'')]"
  let ?upload = "\<lambda>filename body :: jsstring. if filename = js ''2025-01-02.json'' then FetchThrew else ResponseOk"
  have list: "getMemoryList (js ''v'') ?st = [js ''2025-01-03'', js ''2025-01-02'', js ''2025-01-01'']"
    by (simp add: getMemoryList_def storage_keys_def memoryKeyPrefix_def startsWith_def js_def)
  then have ne: "getMemoryList (js ''v'') ?st \<noteq> []" by simp
  have att: "uploadAttempt ?upload (js ''v'') ?st (js ''2025-01-03'') = Some ResponseOk"
    "uploadAttempt ?upload (js ''v'') ?st (js ''2025-01-02'') = Some FetchThrew"
    "uploadAttempt ?upload (js ''v'') ?st (js ''2025-01-01'') = Some ResponseOk"
    by (simp_all add: uploadAttempt_def getItem_def memoryKey_def memoryKeyPrefix_def js_def)
  have items: "getItem ?st (memoryKey (js ''v'') (js ''2025-01-03'')) \<noteq> Some []"
     "getItem ?st (memoryKey (js ''v'') (js ''2025-01-02'')) \<noteq> Some []"
     "getItem ?st (memoryKey (js ''v'') (js ''2025-01-01'')) \<noteq> Some []"
    by (simp_all add: getItem_def memoryKey_def memoryKeyPrefix_def js_def)
  from upload_counts [of "js ''v''" ?st ?upload] ne
  obtain p where p: "handleUploadMemories True ?upload (js ''v'') ?st = UploadComplete p"
     "attempted p = [t \<leftarrow> getMemoryList (js ''v'') ?st. getItem ?st (memoryKey (js ''v'') t) \<noteq> Some []]"
     "successCount p = length [t \<leftarrow> getMemoryList (js ''v'') ?st. uploadAttempt ?upload (js ''v'') ?st t = Some ResponseOk]"
     "errorCount p = length [t \<leftarrow> getMemoryList (js ''v'') ?st. uploadAttempt ?upload (js ''v'') ?st t \<notin> {None, Some ResponseOk}]"
    by blast
  have "attempted p = [js ''2025-01-03'', js ''2025-01-02'', js ''2025-01-01'']"
    unfolding p(2) list using items by simp
  moreover have "successCount p = 2" unfolding p(3) list using att by simp
  moreover have "errorCount p = 1" unfolding p(4) list using att by simp
  ultimately have "p = \<lparr>successCount = 2, errorCount = 1,
        attempted = [js ''2025-01-03'', js ''2025-01-02'', js ''2025-01-01'']\<rparr>"
    by (cases p) simp
  with p(1) show ?thesis by simp
qed


text \<open>
  The claim as it is written fails for the batch of no snapshot: nothing is attempted, as
  claimed, but the operation reports that there is nothing to upload, not a summary with
  both counts zero.
\<close>

theorem upload_counts_counterexample:
  "handleUploadMemories True (\<lambda>filename body. ResponseOk) (js ''v'')
     [(js ''chatHistory_v'', js ''[]'')]
   \<noteq> UploadComplete \<lparr>successCount = 0, errorCount = 0, attempted = []\<rparr>"
  by (simp add: handleUploadMemories_def getMemoryList_def storage_keys_def
        memoryKeyPrefix_def startsWith_def js_def)

section \<open>Properties of the message handler\<close>

text \<open>
  C8. The severity of an error envelope is its field \<open>error.type\<close>: \<open>warning\<close> is the
  warning, every other value is an error. A warning is written to the console and changes
  nothing else; an error is written to the console and appended to the list of errors
  shown to the user. So the list of errors changes exactly when the envelope is not a
  warning.
\<close>

theorem error_envelope_severity:
  assumes "env_type d = js ''error''"
  shows "(error_type d = js ''warning'' \<longrightarrow>
            onMessage mk d st
              = st\<lparr>console := console st @
                     [ConsoleWarn (js ''Warning from server: '' @ error_message d)]\<rparr>)
       \<and> (error_type d \<noteq> js ''warning'' \<longrightarrow>
            onMessage mk d st
              = st\<lparr>console := console st @
                     [ConsoleError (js ''Error from server: '' @ error_message d)],
                    errors := errors st @ [mk (error_message d)]\<rparr>)
       \<and> (errors (onMessage mk d st) \<noteq> errors st \<longleftrightarrow> error_type d \<noteq> js ''warning'')"
  using assms by (simp add: onMessage_def js_def)


theorem error_envelope_severity_witness:
  "errors (onMessage (\<lambda>message. message)
             \<lparr>env_type = js ''error'', delta = [], error_type = js ''warning'',
              error_message = js ''slow'', response_output = [], debug_dict = JNull\<rparr>
             \<lparr>rawChatHistory = [], errors = [], console = [], outbox = [], inflight = [],
              debugDict = None\<rparr>) = []
   \<and> errors (onMessage (\<lambda>message. message)
             \<lparr>env_type = js ''error'', delta = [], error_type = js ''fatal'',
              error_message = js ''boom'', response_output = [], debug_dict = JNull\<rparr>
             \<lparr>rawChatHistory = [], errors = [], console = [], outbox = [], inflight = [],
              debugDict = None\<rparr>) = [js ''boom'']"
  using error_envelope_severity
     [of "\<lparr>env_type = js ''error'', delta = [], error_type = js ''warning'',
              error_message = js ''slow'', response_output = [], debug_dict = JNull\<rparr>"
         "\<lambda>message. message"
         "\<lparr>rawChatHistory = [], errors = [], console = [], outbox = [], inflight = [],
              debugDict = None\<rparr>"]
    error_envelope_severity
     [of "\<lparr>env_type = js ''error'', delta = [], error_type = js ''fatal'',
              error_message = js ''boom'', response_output = [], debug_dict = JNull\<rparr>"
         "\<lambda>message. message"
         "\<lparr>rawChatHistory = [], errors = [], console = [], outbox = [], inflight = [],
              debugDict = None\<rparr>"]
  by (simp add: js_def)


lemma rawChatHistory_appendTurn: "rawChatHistory (appendTurn m st) = rawChatHistory st @ [m]"
  by (simp add: appendTurn_def)

lemma foldl_onOutputItem:
  "rawChatHistory (foldl onOutputItem st out)
     = rawChatHistory st @
       map (\<lambda>call. \<lparr>role = Assistant, content = None,
                    tool_calls = Some [\<lparr>tc_id = call_id call, tc_name = name call,
                                        tc_arguments = arguments call\<rparr>],
                    tool_call_id = None\<rparr>)
         [call \<leftarrow> out. item_type call = js ''function_call'']
   \<and> inflight (foldl onOutputItem st out)
     = inflight st @ [call \<leftarrow> out. item_type call = js ''function_call'']"
proof (induction out arbitrary: st)
  case Nil
  show ?case by simp
next
  case (Cons call out)
  show ?case
    using Cons.IH [of "onOutputItem st call"]
    by (simp add: onOutputItem_def appendTurn_def)
qed

lemma onMessage_appends:
  "\<exists>later. rawChatHistory (onMessage mk d st) = rawChatHistory st @ later"
  by (simp add: onMessage_def foldl_onOutputItem rawChatHistory_appendTurn)

lemma task_appends:
  "task mk sf st st' \<Longrightarrow> \<exists>later. rawChatHistory st' = rawChatHistory st @ later"
proof (induction rule: task.induct)
  case (inbound st d)
  show ?case by (rule onMessage_appends)
next
  case (settled call st toolResult)
  show ?case by (simp add: onToolResult_def appendTurn_def)
qed

lemma tasks_appends:
  "tasks mk sf st st' \<Longrightarrow> \<exists>later. rawChatHistory st' = rawChatHistory st @ later"
proof (induction rule: tasks.induct)
  case (no_task st)
  show ?case by simp
next
  case (one_more st st' st'')
  from one_more.hyps(1) obtain a where "rawChatHistory st' = rawChatHistory st @ a"
    using task_appends by blast
  moreover from one_more.IH obtain b where "rawChatHistory st'' = rawChatHistory st' @ b"
    by blast
  ultimately show ?case by simp
qed


text \<open>
  C4. Handling a \<open>response.done\<close> envelope appends one assistant Turn for each entry
  of type \<open>function_call\<close>, in the order of the entries, each with null content and
  the single tool call of that entry; when the handler ends all these calls are in flight,
  none has a result in the history yet. Whatever tasks run afterwards, in whatever order
  the calls settle, the history only grows at its end, so every tool result comes after
  all these assistant Turns.
\<close>

theorem response_done_assistant_turns_first:
  assumes "env_type d = js ''response.done''"
      and "tasks mk sf (onMessage mk d st) st'"
  shows "rawChatHistory (onMessage mk d st)
           = rawChatHistory st @
             map (\<lambda>call. \<lparr>role = Assistant, content = None,
                          tool_calls = Some [\<lparr>tc_id = call_id call, tc_name = name call,
                                              tc_arguments = arguments call\<rparr>],
                          tool_call_id = None\<rparr>)
               [call \<leftarrow> response_output d. item_type call = js ''function_call'']
       \<and> inflight (onMessage mk d st)
           = inflight st @ [call \<leftarrow> response_output d. item_type call = js ''function_call'']
       \<and> (\<exists>later. rawChatHistory st' = rawChatHistory (onMessage mk d st) @ later)"
proof -
  have "onMessage mk d st = foldl onOutputItem st (response_output d)"
    using assms(1) by (simp add: onMessage_def js_def)
  then show ?thesis
    using foldl_onOutputItem [of st "response_output d"] tasks_appends [OF assms(2)]
    by simp
qed


theorem response_done_assistant_turns_first_witness:
  "let callA = \<lparr>name = js ''get_weather'', arguments = js ''{}'',
                item_type = js ''function_call'', call_id = js ''A''\<rparr>;
       callB = \<lparr>name = js ''get_news'', arguments = js ''{}'',
                item_type = js ''function_call'', call_id = js ''B''\<rparr>;
       mk = (\<lambda>message :: jsstring. message);
       sf = (\<lambda>v :: jsvalue. Some (js ''{}''));
       st1 = onMessage mk
               \<lparr>env_type = js ''response.done'', delta = [], error_type = [],
                error_message = [], response_output = [callA, callB], debug_dict = JNull\<rparr>
               \<lparr>rawChatHistory = [], errors = [], console = [], outbox = [], inflight = [],
                debugDict = None\<rparr>;
       st2 = onToolResult sf callB (JObject []) (st1\<lparr>inflight := remove1 callB (inflight st1)\<rparr>);
       st3 = onToolResult sf callA (JObject []) (st2\<lparr>inflight := remove1 callA (inflight st2)\<rparr>)
   in tasks mk sf st1 st3
      \<and> map role (rawChatHistory st1) = [Assistant, Assistant]
      \<and> map role (rawChatHistory st3) = [Assistant, Assistant, Tool, Tool]
      \<and> map tool_call_id (rawChatHistory st3) = [None, None, Some (js ''B''), Some (js ''A'')]"
proof -
  define callA where "callA = \<lparr>name = js ''get_weather'', arguments = js ''{}'',
                item_type = js ''function_call'', call_id = js ''A''\<rparr>"
  define callB where "callB = \<lparr>name = js ''get_news'', arguments = js ''{}'',
                item_type = js ''function_call'', call_id = js ''B''\<rparr>"
  define mk where "mk = (\<lambda>message :: jsstring. message)"
  define sf where "sf = (\<lambda>v :: jsvalue. Some (js ''{}''))"
  define d where "d = \<lparr>env_type = js ''response.done'', delta = [], error_type = [],
                error_message = [], response_output = [callA, callB], debug_dict = JNull\<rparr>"
  define st0 :: "jsstring unmute" where
    "st0 = \<lparr>rawChatHistory = [], errors = [], console = [], outbox = [], inflight = [],
                debugDict = None\<rparr>"
  define st1 where "st1 = onMessage mk d st0"
  define st2 where "st2 = onToolResult sf callB (JObject []) (st1\<lparr>inflight := remove1 callB (inflight st1)\<rparr>)"
  define st3 where "st3 = onToolResult sf callA (JObject []) (st2\<lparr>inflight := remove1 callA (inflight st2)\<rparr>)"
  have type: "env_type d = js ''response.done''" by (simp add: d_def)
  have calls: "[call \<leftarrow> response_output d. item_type call = js ''function_call''] = [callA, callB]"
    by (simp add: d_def callA_def callB_def)
  have AB: "callA \<noteq> callB" by (simp add: callA_def callB_def js_def)
  have run0: "tasks mk sf st1 st1" by (rule tasks.no_task)
  note first = response_done_assistant_turns_first [OF type, of mk sf st0, folded st1_def]
  from first [OF run0] have fl1: "inflight st1 = [callA, callB]"
    by (simp add: calls st0_def)
  have t1: "task mk sf st1 st2"
    unfolding st2_def by (rule task.settled) (simp add: fl1)
  have fl2: "inflight st2 = [callA]"
    using AB by (simp add: st2_def onToolResult_def appendTurn_def fl1)
  have t2: "task mk sf st2 st3"
    unfolding st3_def by (rule task.settled) (simp add: fl2)
  have run: "tasks mk sf st1 st3"
    by (rule tasks.one_more [OF t1]) (rule tasks.one_more [OF t2], rule tasks.no_task)
  from first [OF run] have h1: "rawChatHistory st1
       = map (\<lambda>call. \<lparr>role = Assistant, content = None,
                          tool_calls = Some [\<lparr>tc_id = call_id call, tc_name = name call,
                                              tc_arguments = arguments call\<rparr>],
                          tool_call_id = None\<rparr>) [callA, callB]"
    by (simp add: calls st0_def)
  have h3: "rawChatHistory st3 = rawChatHistory st1 @
      [\<lparr>role = Tool, content = sf (JObject []), tool_calls = None, tool_call_id = Some (call_id callB)\<rparr>,
       \<lparr>role = Tool, content = sf (JObject []), tool_calls = None, tool_call_id = Some (call_id callA)\<rparr>]"
    by (simp add: st3_def st2_def onToolResult_def appendTurn_def)
  have "tasks mk sf st1 st3
      \<and> map role (rawChatHistory st1) = [Assistant, Assistant]
      \<and> map role (rawChatHistory st3) = [Assistant, Assistant, Tool, Tool]
      \<and> map tool_call_id (rawChatHistory st3) = [None, None, Some (js ''B''), Some (js ''A'')]"
    using run by (simp add: h3 h1) (simp add: callA_def callB_def)
  then show ?thesis
    unfolding Let_def st3_def st2_def st1_def d_def st0_def sf_def mk_def callA_def callB_def .
qed


section \<open>Properties of handleToolCall\<close>

text \<open>
  Both dispatchers settle with a value for every call, whatever the capabilities do:
  everything that can throw is inside the \<open>try\<close> block, and the \<open>catch\<close> block
  returns an error result. The dispatcher with the \<open>switch\<close> answers every name that
  is not a tool with an error result, and arguments that \<open>JSON.parse\<close> rejects with
  the message of that error.
\<close>

lemma try_catch_catchToolError: "\<exists>v. try_catch x catchToolError = Return v"
proof (cases x)
  case (Return v)
  then show ?thesis by simp
next
  case (Throw e)
  then show ?thesis by (cases e) (simp_all add: catchToolError_def)
qed

lemma handleToolCall_settles: "\<exists>v. handleToolCall parse caps call url = Return v"
  by (simp add: handleToolCall_def try_catch_catchToolError)

lemma handleToolCall_table_settles: "\<exists>v. handleToolCall_table parse proto tbl call = Return v"
  by (cases "toolFunctions proto tbl (name call)")
     (simp_all add: handleToolCall_table_def try_catch_catchToolError)

lemma isErrorResult_errorResult: "isErrorResult (errorResult m)"
  by (simp add: isErrorResult_def errorResult_def)

lemma handleToolCall_unknown_name:
  assumes "name call \<notin> set toolNames"
  shows "\<exists>v. handleToolCall parse caps call url = Return v \<and> isErrorResult v"
proof (cases "parse (argumentsOrEmptyObject (arguments call))")
  case (Return args)
  then have "handleToolCall parse caps call url
      = Return (errorResult (js ''Unknown function call: '' @ name call))"
    using assms by (simp add: handleToolCall_def toolNames_def)
  then show ?thesis by (simp add: isErrorResult_errorResult)
next
  case (Throw e)
  then show ?thesis
    by (cases e) (simp_all add: handleToolCall_def catchToolError_def isErrorResult_errorResult)
qed

lemma handleToolCall_malformed_arguments:
  assumes "parse (argumentsOrEmptyObject (arguments call)) = Throw (JsError message)"
  shows "handleToolCall parse caps call url = Return (errorResult message)"
  using assms by (simp add: handleToolCall_def catchToolError_def)


text \<open>
  C3. The dispatcher with the table does not keep the claim for a name that is a property
  of \<open>Object.prototype\<close>. On a platform where \<open>constructor\<close> is such a property,
  the function \<open>Object\<close>, which returns an object argument as it is, the call named
  \<open>constructor\<close> with the arguments \<open>{}\<close> is not a tool, yet the table finds a
  function for it and the dispatcher returns the parsed arguments, which are not an error
  result. The dispatcher with the \<open>switch\<close> returns the error result for the same
  call.
\<close>

theorem handleToolCall_table_inherited_name:
  assumes "objectPrototype (js ''constructor'') = Some (Callable objectConstructor)"
      and "objectConstructor (JObject []) = Return (JObject [])"
      and "parse (js ''{}'') = Return (JObject [])"
  shows "js ''constructor'' \<notin> set toolNames
       \<and> handleToolCall_table parse objectPrototype tbl
           \<lparr>name = js ''constructor'', arguments = js ''{}''\<rparr> = Return (JObject [])
       \<and> \<not> isErrorResult (JObject [])
       \<and> handleToolCall parse caps \<lparr>name = js ''constructor'', arguments = js ''{}''\<rparr> url
           = Return (errorResult (js ''Unknown function call: constructor''))"
proof -
  have unknown: "js ''constructor'' \<notin> set toolNames"
    by (simp add: toolNames_def js_def)
  have args: "argumentsOrEmptyObject (js ''{}'') = js ''{}''"
    by (simp add: argumentsOrEmptyObject_def js_def)
  have found: "toolFunctions objectPrototype tbl (js ''constructor'') = Some (Callable objectConstructor)"
    using assms(1) by (simp add: toolFunctions_def js_def)
  have table: "handleToolCall_table parse objectPrototype tbl
           \<lparr>name = js ''constructor'', arguments = js ''{}''\<rparr> = Return (JObject [])"
    using assms(2,3) by (simp add: handleToolCall_table_def found args callProperty_def)
  have switch: "handleToolCall parse caps \<lparr>name = js ''constructor'', arguments = js ''{}''\<rparr> url
           = Return (errorResult (js ''Unknown function call: constructor''))"
    using assms(3) by (simp add: handleToolCall_def args) (simp add: js_def)
  show ?thesis
    using unknown table switch by (simp add: isErrorResult_def)
qed

theorem handleToolCall_table_inherited_name_witness:
  "handleToolCall_table
     (\<lambda>t. if t = js ''{}'' then Return (JObject []) else Throw (JsError (js ''Unexpected token'')))
     (\<lambda>key. if key = js ''constructor''
            then Some (Callable (\<lambda>v. Return (case v of JUndefined \<Rightarrow> JObject []
                                                | JNull \<Rightarrow> JObject [] | _ \<Rightarrow> v)))
            else None)
     \<lparr>get_weather = (\<lambda>args. Throw (JsError (js ''Failed to fetch''))),
      get_coordinates = (\<lambda>args. Throw (JsError (js ''Failed to fetch''))),
      get_news = (\<lambda>args. Throw (JsError (js ''Failed to fetch''))),
      get_news_sources = (\<lambda>args. Throw (JsError (js ''Failed to fetch'')))\<rparr>
     \<lparr>name = js ''constructor'', arguments = js ''{}''\<rparr>
   = Return (JObject [])"
  using handleToolCall_table_inherited_name
    [of "\<lambda>key. if key = js ''constructor''
            then Some (Callable (\<lambda>v. Return (case v of JUndefined \<Rightarrow> JObject []
                                                | JNull \<Rightarrow> JObject [] | _ \<Rightarrow> v)))
            else None"
        "\<lambda>v. Return (case v of JUndefined \<Rightarrow> JObject [] | JNull \<Rightarrow> JObject [] | _ \<Rightarrow> v)"
        "\<lambda>t. if t = js ''{}'' then Return (JObject []) else Throw (JsError (js ''Unexpected token''))"
        "\<lparr>get_weather = (\<lambda>args. Throw (JsError (js ''Failed to fetch''))),
      get_coordinates = (\<lambda>args. Throw (JsError (js ''Failed to fetch''))),
      get_news = (\<lambda>args. Throw (JsError (js ''Failed to fetch''))),
      get_news_sources = (\<lambda>args. Throw (JsError (js ''Failed to fetch'')))\<rparr>"]
  by simp

end
